theory Spec2Isabelle
  imports Main "HOL-Library.Word"
begin

unbundle bit_operations_syntax

section \<open>Platform: fixed-width integers, host byte order, checksum\<close>

type_synonym u8 = "8 word"
type_synonym u16 = "16 word"
type_synonym u32 = "32 word"

text \<open>\<open>size_t\<close> of the LP64 platforms the stack runs on.\<close>

type_synonym size_t = "64 word"

text \<open>
  The sources read multi-byte header fields through struct pointers, so the value a
  field has depends on the byte order of the host. The host byte order is a parameter
  of every function that touches memory through such a pointer.
\<close>

datatype byteorder = LITTLE_ENDIAN | BIG_ENDIAN

text \<open>A native 16-bit read of two consecutive bytes, the first at the lower address.\<close>

definition load16 :: "byteorder \<Rightarrow> u8 \<Rightarrow> u8 \<Rightarrow> u16" where
  "load16 bo b0 b1 =
     (if bo = LITTLE_ENDIAN then push_bit 8 (ucast b1) OR ucast b0
      else push_bit 8 (ucast b0) OR ucast b1)"

text \<open>A native 32-bit read of four consecutive bytes, and the bytes of a 32-bit value.\<close>

definition load32 :: "byteorder \<Rightarrow> u8 list \<Rightarrow> u32" where
  "load32 bo bs =
     (let m = (if bo = LITTLE_ENDIAN then rev bs else bs)
      in foldl (\<lambda>acc b. push_bit 8 acc OR ucast b) 0 m)"

definition store32 :: "byteorder \<Rightarrow> u32 \<Rightarrow> u8 list" where
  "store32 bo w =
     (let be = [ucast (drop_bit 24 w), ucast (drop_bit 16 w), ucast (drop_bit 8 w), ucast w]
      in if bo = LITTLE_ENDIAN then rev be else be)"

text \<open>
  Modelled from the spec: \<open>ntoh16\<close>, \<open>hton16\<close> and \<open>ntoh32\<close> live in util.c, which is
  not among the sources. Section 4.1 calls them byte-order conversions: they swap the
  bytes on a little-endian host and are the identity on a big-endian one.
\<close>

definition byteswap16 :: "u16 \<Rightarrow> u16" where
  "byteswap16 v = push_bit 8 (v AND 0x00ff) OR drop_bit 8 (v AND 0xff00)"

definition byteswap32 :: "u32 \<Rightarrow> u32" where
  "byteswap32 v =
     push_bit 24 (v AND 0x000000ff) OR push_bit 8 (v AND 0x0000ff00) OR
     drop_bit 8 (v AND 0x00ff0000) OR drop_bit 24 (v AND 0xff000000)"

definition ntoh16 :: "byteorder \<Rightarrow> u16 \<Rightarrow> u16" where
  "ntoh16 bo n = (if bo = LITTLE_ENDIAN then byteswap16 n else n)"

definition hton16 :: "byteorder \<Rightarrow> u16 \<Rightarrow> u16" where
  "hton16 bo h = (if bo = LITTLE_ENDIAN then byteswap16 h else h)"

definition ntoh32 :: "byteorder \<Rightarrow> u32 \<Rightarrow> u32" where
  "ntoh32 bo n = (if bo = LITTLE_ENDIAN then byteswap32 n else n)"

text \<open>
  Modelled from the spec: \<open>cksum16\<close> lives in util.c, which is not among the sources.
  Section 4.1: the one's-complement sum of the 16-bit words of the covered range, an
  odd-length range padded with a zero byte, started from a partial sum the caller may
  supply; the result is the complement of the folded sum.
\<close>

fun sum16 :: "byteorder \<Rightarrow> u8 list \<Rightarrow> nat \<Rightarrow> nat" where
  "sum16 bo (b0 # b1 # bs) acc = sum16 bo bs (acc + unat (load16 bo b0 b1))"
| "sum16 bo [b0] acc = acc + unat (load16 bo b0 0)"
| "sum16 bo [] acc = acc"

function fold16 :: "nat \<Rightarrow> nat" where
  "fold16 s = (if s < 65536 then s else fold16 (s mod 65536 + s div 65536))"
  by pat_completeness auto
termination
proof (relation "measure (\<lambda>s. s)")
  show "wf (measure (\<lambda>s::nat. s))"
    by simp
next
  fix s :: nat
  assume "\<not> s < 65536"
  then have q: "1 \<le> s div 65536"
    by (simp add: Suc_le_eq div_greater_zero_iff)
  have "s = 65536 * (s div 65536) + s mod 65536"
    by simp
  then have "s mod 65536 + s div 65536 < s"
    using q by linarith
  then show "(s mod 65536 + s div 65536, s) \<in> measure (\<lambda>s. s)"
    by simp
qed

declare fold16.simps [simp del]

definition cksum16 :: "byteorder \<Rightarrow> u8 list \<Rightarrow> u16 \<Rightarrow> u16" where
  "cksum16 bo bytes init = NOT (word_of_nat (fold16 (sum16 bo bytes (unat init))))"

section \<open>IP addresses (ip.c)\<close>

type_synonym ip_addr_t = u32

definition IP_ADDR_ANY :: ip_addr_t where
  "IP_ADDR_ANY = 0x00000000"

definition IP_ADDR_BROADCAST :: ip_addr_t where
  "IP_ADDR_BROADCAST = 0xffffffff"

subsection \<open>The C library's \<open>strtol\<close>, base 10\<close>

text \<open>
  \<open>strtol(sp, &ep, 10)\<close> as ISO C defines it: it skips white space, reads an optional
  sign and then the longest run of decimal digits; \<open>ep\<close> is the rest of the string. With
  no digit there is no conversion: the value is 0 and \<open>ep\<close> is \<open>sp\<close>. A value outside
  \<open>long\<close> is clamped. A C string is the list of its characters before the terminating
  NUL, and a pointer into it is the suffix it points to.
\<close>

definition isspace :: "char \<Rightarrow> bool" where
  "isspace c = (c = CHR 0x20 \<or> (9 \<le> (of_char c :: nat) \<and> (of_char c :: nat) \<le> 13))"

definition isdigit :: "char \<Rightarrow> bool" where
  "isdigit c = (48 \<le> (of_char c :: nat) \<and> (of_char c :: nat) \<le> 57)"

definition digit_val :: "char \<Rightarrow> nat" where
  "digit_val c = of_char c - 48"

definition digits_val :: "string \<Rightarrow> nat" where
  "digits_val ds = foldl (\<lambda>acc c. 10 * acc + digit_val c) 0 ds"

definition LONG_MAX :: int where
  "LONG_MAX = 2 ^ 63 - 1"

definition LONG_MIN :: int where
  "LONG_MIN = - (2 ^ 63)"

definition strtol :: "string \<Rightarrow> int \<times> string" where
  "strtol sp =
     (let s1 = dropWhile isspace sp;
          neg = (s1 \<noteq> [] \<and> hd s1 = CHR ''-'');
          s2 = (if s1 \<noteq> [] \<and> (hd s1 = CHR ''-'' \<or> hd s1 = CHR ''+'') then tl s1 else s1);
          ds = takeWhile isdigit s2;
          v = (if neg then - int (digits_val ds) else int (digits_val ds))
      in if ds = [] then (0, sp)
         else (max LONG_MIN (min LONG_MAX v), dropWhile isdigit s2))"

subsection \<open>\<open>ip_addr_pton\<close> and \<open>ip_addr_ntop\<close>\<close>

text \<open>\<open>((uint8_t *)n)[idx] = v\<close>: one byte of the address is overwritten in memory.\<close>

definition set_u8 :: "byteorder \<Rightarrow> ip_addr_t \<Rightarrow> nat \<Rightarrow> u8 \<Rightarrow> ip_addr_t" where
  "set_u8 bo n idx v = load32 bo ((store32 bo n)[idx := v])"

text \<open>
  The loop of \<open>ip_addr_pton\<close> from index \<open>idx\<close> on, \<open>sp\<close> being the unread part of the
  string and \<open>n\<close> the address as written so far. The result is the return code with the
  address as the call leaves it: a failing call has already written the bytes of the
  components before the failing one.
\<close>

function pton_from :: "byteorder \<Rightarrow> nat \<Rightarrow> string \<Rightarrow> ip_addr_t \<Rightarrow> int \<times> ip_addr_t" where
  "pton_from bo idx sp n =
     (if idx < 4 then
        (let (ret, ep) = strtol sp in
         if ret < 0 \<or> ret > 255 then (- 1, n)
         else if ep = sp then (- 1, n)
         else if (idx = 3 \<and> ep \<noteq> []) \<or> (idx \<noteq> 3 \<and> (ep = [] \<or> hd ep \<noteq> CHR ''.''))
           then (- 1, n)
         else pton_from bo (idx + 1) (tl ep) (set_u8 bo n idx (word_of_int ret)))
      else (0, n))"
  by pat_completeness auto
termination
  by (relation "measure (\<lambda>(bo, idx, sp, n). 4 - idx)") auto

declare pton_from.simps [simp del]

definition ip_addr_pton :: "byteorder \<Rightarrow> string \<Rightarrow> ip_addr_t \<Rightarrow> int \<times> ip_addr_t" where
  "ip_addr_pton bo p n = pton_from bo 0 p n"

text \<open>\<open>printf\<close>'s \<open>%d\<close> of a value that is not negative.\<close>

definition digit_char :: "nat \<Rightarrow> char" where
  "digit_char d = char_of (48 + d)"

fun dec :: "nat \<Rightarrow> string" where
  "dec n = (if n < 10 then [digit_char n] else dec (n div 10) @ [digit_char (n mod 10)])"

declare dec.simps [simp del]

text \<open>
  \<open>snprintf(p, size, "%d.%d.%d.%d", u8[0], u8[1], u8[2], u8[3])\<close>: at most \<open>size - 1\<close>
  characters are written, and nothing when \<open>size\<close> is 0. The result is the string at
  \<open>p\<close> after the call.
\<close>

definition ip_addr_ntop :: "byteorder \<Rightarrow> ip_addr_t \<Rightarrow> string \<Rightarrow> nat \<Rightarrow> string" where
  "ip_addr_ntop bo n p sz =
     (let u8 = store32 bo n;
          s = dec (unat (u8 ! 0)) @ ''.'' @ dec (unat (u8 ! 1)) @ ''.'' @
              dec (unat (u8 ! 2)) @ ''.'' @ dec (unat (u8 ! 3))
      in if sz = 0 then p else take (sz - 1) s)"

definition IP_ADDR_STR_LEN :: nat where
  "IP_ADDR_STR_LEN = 16"

section \<open>IP interfaces and IP input (ip.c)\<close>

record ip_iface =
  unicast :: ip_addr_t
  netmask :: ip_addr_t
  broadcast :: ip_addr_t

text \<open>
  \<open>ip_iface_alloc\<close> ignores what \<open>ip_addr_pton\<close> returns. \<open>memory_alloc\<close> is not among
  the sources; the fresh interface is taken zeroed.
\<close>

definition ip_iface_alloc :: "byteorder \<Rightarrow> string \<Rightarrow> string \<Rightarrow> ip_iface" where
  "ip_iface_alloc bo uc nm =
     (let u = snd (ip_addr_pton bo uc 0);
          m = snd (ip_addr_pton bo nm 0)
      in \<lparr>unicast = u, netmask = m, broadcast = (u AND m) OR NOT m\<rparr>)"

fun ip_iface_select :: "ip_iface list \<Rightarrow> ip_addr_t \<Rightarrow> ip_iface option" where
  "ip_iface_select [] a = None"
| "ip_iface_select (iface # ifaces) a =
     (if unicast iface = a then Some iface else ip_iface_select ifaces a)"

text \<open>
  Modelled from the spec: ip.h is not among the sources. \<open>IP_HDR_SIZE_MIN\<close> is the
  minimum IPv4 header, 20 bytes, and \<open>IP_VERSION_IPV4\<close> is 4.
\<close>

definition IP_HDR_SIZE_MIN :: nat where
  "IP_HDR_SIZE_MIN = 20"

definition IP_VERSION_IPV4 :: u8 where
  "IP_VERSION_IPV4 = 4"

datatype ip_error =
    TooShort
  | NotIPv4
  | ShorterThanHeader
  | ShorterThanTotal
  | ChecksumFailure
  | Fragments
  | NoIface
  | NotForUs

text \<open>The header length as \<open>ip_input\<close> computes it: \<open>ntoh16(hdr->vhl) & 0x0f * 4\<close>.\<close>

definition ip_input_hlen :: "byteorder \<Rightarrow> u8 \<Rightarrow> u16" where
  "ip_input_hlen bo vhl = ntoh16 bo (ucast vhl) AND (0x0f * 4)"

text \<open>The header length as \<open>ip_dump\<close> computes it: \<open>hl = vhl & 0x0f; hlen = hl << 2\<close>.\<close>

definition ip_dump_hlen :: "u8 \<Rightarrow> u8" where
  "ip_dump_hlen vhl = push_bit 2 (vhl AND 0x0f)"

text \<open>The destination test of \<open>ip_input\<close>: true when the datagram is let through.\<close>

definition ip_input_dst_ok :: "ip_iface \<Rightarrow> ip_addr_t \<Rightarrow> bool" where
  "ip_input_dst_ok iface dst_ip_address =
     (\<not> (unicast iface \<noteq> dst_ip_address \<and>
         dst_ip_address \<noteq> 0xffffffff \<and>
         dst_ip_address \<noteq> (unicast iface OR 0xff000000)))"

text \<open>
  \<open>ip_input\<close> on the \<open>len\<close> bytes \<open>data\<close>, \<open>iface\<close> being what \<open>net_device_get_iface\<close>
  finds on the device. Every early return is an error value; a datagram that passes
  every test is dumped with its total length.
\<close>

definition ip_input :: "byteorder \<Rightarrow> ip_iface option \<Rightarrow> u8 list \<Rightarrow> ip_error + nat" where
  "ip_input bo iface data =
     (if length data < IP_HDR_SIZE_MIN then Inl TooShort
      else if drop_bit 4 (data ! 0) \<noteq> IP_VERSION_IPV4 then Inl NotIPv4
      else
        (let hlen = ip_input_hlen bo (data ! 0);
             total = ntoh16 bo (load16 bo (data ! 2) (data ! 3))
         in if length data < unat hlen then Inl ShorterThanHeader
            else if length data < unat total then Inl ShorterThanTotal
            else if cksum16 bo data 0 \<noteq> 0 then Inl ChecksumFailure
            else
              (let offset = ntoh16 bo (load16 bo (data ! 6) (data ! 7))
               in if offset AND 0x2000 \<noteq> 0 \<or> offset AND 0x1fff \<noteq> 0 then Inl Fragments
                  else
                    (case iface of
                       None \<Rightarrow> Inl NoIface
                     | Some ifc \<Rightarrow>
                         if ip_input_dst_ok ifc (load32 bo (take 4 (drop 16 data)))
                         then Inr (unat total)
                         else Inl NotForUs))))"

section \<open>TCP: data (tcp.c)\<close>

definition TCP_FLG_FIN :: u8 where "TCP_FLG_FIN = 0x01"
definition TCP_FLG_SYN :: u8 where "TCP_FLG_SYN = 0x02"
definition TCP_FLG_RST :: u8 where "TCP_FLG_RST = 0x04"
definition TCP_FLG_PSH :: u8 where "TCP_FLG_PSH = 0x08"
definition TCP_FLG_ACK :: u8 where "TCP_FLG_ACK = 0x10"
definition TCP_FLG_URG :: u8 where "TCP_FLG_URG = 0x20"

definition TCP_FLG_ISSET :: "u8 \<Rightarrow> u8 \<Rightarrow> bool" where
  "TCP_FLG_ISSET x y = ((x AND 0x3f) AND y \<noteq> 0)"

definition TCP_PCB_SIZE :: nat where
  "TCP_PCB_SIZE = 16"

datatype tcp_state =
    FREE
  | CLOSED
  | LISTEN
  | SYN_SENT
  | SYN_RECEIVED
  | ESTABLISHED
  | FIN_WAIT1
  | FIN_WAIT2
  | CLOSING
  | TIME_WAIT
  | CLOSE_WAIT
  | LAST_ACK

record ip_endpoint =
  addr :: ip_addr_t
  port :: u16

record tcp_segment_info =
  seq :: u32
  ack :: u32
  len :: u16
  wnd :: u16
  up :: u16

text \<open>
  \<open>struct tcp_pcb\<close>, the fields of \<open>snd\<close> and \<open>rcv\<close> flattened. The wait context \<open>ctx\<close> is
  not a field: the calls of \<open>sched_wakeup\<close> are logged in the state of the module, and
  what \<open>sched_sleep\<close> and \<open>sched_ctx_destroy\<close> return is an input of the functions that
  call them.

  The last two fields are history variables that the C struct does not have and that
  no function reads: \<open>rx_stored\<close> counts the payload bytes that segment arrival has
  copied into \<open>buf\<close>, \<open>rx_taken\<close> the bytes that \<open>tcp_receive\<close> has copied out of it.
  Their difference is the number of bytes appended and not yet consumed.
\<close>

record tcp_pcb =
  state :: tcp_state
  local :: ip_endpoint
  foreign :: ip_endpoint
  snd_nxt :: u32
  snd_una :: u32
  snd_wnd :: u16
  snd_up :: u16
  snd_wl1 :: u32
  snd_wl2 :: u32
  iss :: u32
  rcv_nxt :: u32
  rcv_wnd :: u16
  rcv_up :: u16
  irs :: u32
  mtu :: u16
  mss :: u16
  buf :: "u8 list"
  rx_stored :: nat
  rx_taken :: nat

text \<open>\<open>sizeof(pcb->buf)\<close>.\<close>

definition sizeof_buf :: nat where
  "sizeof_buf = 65535"

definition buf_zero :: "u8 list" where
  "buf_zero = replicate sizeof_buf 0"

text \<open>A slot of the static array \<open>pcbs\<close> as the loader and \<open>memset\<close> leave it.\<close>

definition tcp_pcb_zero :: tcp_pcb where
  "tcp_pcb_zero =
     \<lparr>state = FREE,
      local = \<lparr>addr = 0, port = 0\<rparr>, foreign = \<lparr>addr = 0, port = 0\<rparr>,
      snd_nxt = 0, snd_una = 0, snd_wnd = 0, snd_up = 0, snd_wl1 = 0, snd_wl2 = 0,
      iss = 0, rcv_nxt = 0, rcv_wnd = 0, rcv_up = 0, irs = 0, mtu = 0, mss = 0,
      buf = buf_zero, rx_stored = 0, rx_taken = 0\<rparr>"

text \<open>A segment as \<open>tcp_output_segment\<close> hands it to \<open>ip_output\<close>.\<close>

record tcp_segment =
  tx_seq :: u32
  tx_ack :: u32
  tx_flg :: u8
  tx_wnd :: u16
  tx_data :: "u8 list"
  tx_local :: ip_endpoint
  tx_foreign :: ip_endpoint

text \<open>
  The state of the module: the array \<open>pcbs\<close>, the segments emitted so far (oldest first)
  and the slots \<open>sched_wakeup\<close> was called on so far.
\<close>

record tcp_world =
  pcbs :: "tcp_pcb list"
  sent :: "tcp_segment list"
  woken :: "nat list"

definition tcp_world_init :: tcp_world where
  "tcp_world_init = \<lparr>pcbs = replicate TCP_PCB_SIZE tcp_pcb_zero, sent = [], woken = []\<rparr>"

definition put_pcb :: "tcp_world \<Rightarrow> nat \<Rightarrow> tcp_pcb \<Rightarrow> tcp_world" where
  "put_pcb w i pcb = w\<lparr>pcbs := (pcbs w)[i := pcb]\<rparr>"

definition sched_wakeup :: "tcp_world \<Rightarrow> nat \<Rightarrow> tcp_world" where
  "sched_wakeup w i = w\<lparr>woken := woken w @ [i]\<rparr>"

section \<open>TCP: the PCB table\<close>

fun first_free :: "tcp_pcb list \<Rightarrow> nat \<Rightarrow> nat option" where
  "first_free [] i = None"
| "first_free (pcb # rest) i = (if state pcb = FREE then Some i else first_free rest (Suc i))"

definition tcp_pcb_alloc :: "tcp_world \<Rightarrow> nat option \<times> tcp_world" where
  "tcp_pcb_alloc w =
     (case first_free (pcbs w) 0 of
        None \<Rightarrow> (None, w)
      | Some i \<Rightarrow> (Some i, put_pcb w i ((pcbs w ! i)\<lparr>state := CLOSED\<rparr>)))"

text \<open>
  \<open>tcp_pcb_release\<close>; \<open>waiting\<close> says that \<open>sched_ctx_destroy\<close> fails because a
  thread still sleeps on the context.
\<close>

definition tcp_pcb_release :: "tcp_world \<Rightarrow> nat \<Rightarrow> bool \<Rightarrow> tcp_world" where
  "tcp_pcb_release w i waiting =
     (if waiting then sched_wakeup w i else put_pcb w i tcp_pcb_zero)"

text \<open>
  The loop of \<open>tcp_pcb_select\<close> over the slots from index \<open>i\<close> on, with the LISTEN slot
  remembered so far.
\<close>

fun select_from ::
  "tcp_pcb list \<Rightarrow> nat \<Rightarrow> ip_endpoint \<Rightarrow> ip_endpoint option \<Rightarrow> nat option \<Rightarrow> nat option"
where
  "select_from [] i lcl frn listen_pcb = listen_pcb"
| "select_from (pcb # rest) i lcl frn listen_pcb =
     (if (addr (local pcb) = IP_ADDR_ANY \<or> addr (local pcb) = addr lcl) \<and>
         port (local pcb) = port lcl
      then
        (case frn of
           None \<Rightarrow> Some i
         | Some f \<Rightarrow>
             if addr (foreign pcb) = addr f \<and> port (foreign pcb) = port f then Some i
             else if state pcb = LISTEN \<and>
                     addr (foreign pcb) = IP_ADDR_ANY \<and> port (foreign pcb) = 0
               then select_from rest (Suc i) lcl frn (Some i)
             else select_from rest (Suc i) lcl frn listen_pcb)
      else select_from rest (Suc i) lcl frn listen_pcb)"

definition tcp_pcb_select :: "tcp_world \<Rightarrow> ip_endpoint \<Rightarrow> ip_endpoint option \<Rightarrow> nat option" where
  "tcp_pcb_select w lcl frn = select_from (pcbs w) 0 lcl frn None"

definition tcp_pcb_get :: "tcp_world \<Rightarrow> int \<Rightarrow> nat option" where
  "tcp_pcb_get w ident =
     (if ident < 0 \<or> ident \<ge> int TCP_PCB_SIZE then None
      else if state (pcbs w ! nat ident) = FREE then None
      else Some (nat ident))"

section \<open>TCP: output\<close>

text \<open>
  \<open>tcp_output_segment\<close> builds the header from its arguments and calls \<open>ip_output\<close>. The
  segment is recorded by the arguments it is built from. What the call returns, which
  only \<open>tcp_send\<close> looks at, is left out.
\<close>

definition tcp_output_segment ::
  "tcp_world \<Rightarrow> u32 \<Rightarrow> u32 \<Rightarrow> u8 \<Rightarrow> u16 \<Rightarrow> u8 list \<Rightarrow> size_t \<Rightarrow> ip_endpoint \<Rightarrow> ip_endpoint \<Rightarrow> tcp_world"
where
  "tcp_output_segment w sq ak flg wn data n lcl frn =
     w\<lparr>sent := sent w @
        [\<lparr>tx_seq = sq, tx_ack = ak, tx_flg = flg, tx_wnd = wn, tx_data = take (unat n) data,
          tx_local = lcl, tx_foreign = frn\<rparr>]\<rparr>"

definition tcp_output :: "tcp_world \<Rightarrow> nat \<Rightarrow> u8 \<Rightarrow> u8 list \<Rightarrow> size_t \<Rightarrow> tcp_world" where
  "tcp_output w i flg data n =
     (let pcb = pcbs w ! i;
          sq = (if TCP_FLG_ISSET flg TCP_FLG_SYN then iss pcb else snd_nxt pcb)
      in tcp_output_segment w sq (rcv_nxt pcb) flg (rcv_wnd pcb) data n (local pcb) (foreign pcb))"

section \<open>TCP: segment arrives\<close>

datatype tcp_error =
    SegmentTooShort
  | SegmentChecksumError
  | BroadcastDetected
  | BufferOverrun

text \<open>No PCB, or a CLOSED one.\<close>

definition arrives_closed ::
  "tcp_world \<Rightarrow> tcp_segment_info \<Rightarrow> u8 \<Rightarrow> ip_endpoint \<Rightarrow> ip_endpoint \<Rightarrow> tcp_world"
where
  "arrives_closed w seg flags lcl frn =
     (if TCP_FLG_ISSET flags TCP_FLG_RST then w
      else if \<not> TCP_FLG_ISSET flags TCP_FLG_ACK then
        tcp_output_segment w 0 (seq seg + ucast (len seg)) (TCP_FLG_RST OR TCP_FLG_ACK) 0 [] 0
          lcl frn
      else tcp_output_segment w (ack seg) 0 TCP_FLG_RST 0 [] 0 lcl frn)"

text \<open>\<open>case TCP_PCB_STATE_LISTEN\<close>; \<open>rnd\<close> is what \<open>random()\<close> returns, as a \<open>uint32_t\<close>.\<close>

definition arrives_listen ::
  "tcp_world \<Rightarrow> nat \<Rightarrow> tcp_segment_info \<Rightarrow> u8 \<Rightarrow> ip_endpoint \<Rightarrow> ip_endpoint \<Rightarrow> u32 \<Rightarrow> tcp_world"
where
  "arrives_listen w i seg flags lcl frn rnd =
     (if TCP_FLG_ISSET flags TCP_FLG_RST then w
      else if TCP_FLG_ISSET flags TCP_FLG_ACK then
        tcp_output_segment w (ack seg) 0 TCP_FLG_RST 0 [] 0 lcl frn
      else if TCP_FLG_ISSET flags TCP_FLG_SYN then
        (let pcb1 = (pcbs w ! i)
               \<lparr>local := lcl, foreign := frn, rcv_wnd := word_of_nat sizeof_buf,
                rcv_nxt := seq seg + 1, irs := seq seg, iss := rnd\<rparr>;
             w1 = tcp_output (put_pcb w i pcb1) i (TCP_FLG_SYN OR TCP_FLG_ACK) [] 0;
             pcb2 = (pcbs w1 ! i)
               \<lparr>snd_nxt := iss (pcbs w1 ! i) + 1, snd_una := iss (pcbs w1 ! i),
                state := SYN_RECEIVED\<rparr>
         in put_pcb w1 i pcb2)
      else w)"

text \<open>
  1st, check the sequence number: the value of the variable \<open>acceptable\<close> after the
  switch, for a PCB in SYN_RECEIVED or ESTABLISHED. The operands are \<open>uint32_t\<close> (the
  window and the length are converted), so the sums wrap and \<open>\<le>\<close> and \<open><\<close> compare
  unsigned values.
\<close>

definition seq_acceptable :: "tcp_pcb \<Rightarrow> tcp_segment_info \<Rightarrow> bool" where
  "seq_acceptable pcb seg =
     (if len seg = 0 then
        (if rcv_wnd pcb = 0 then seq seg = rcv_nxt pcb
         else rcv_nxt pcb \<le> seq seg \<and> seq seg < rcv_nxt pcb + ucast (rcv_wnd pcb))
      else
        (if rcv_wnd pcb = 0 then False
         else (rcv_nxt pcb \<le> seq seg \<and> seq seg < rcv_nxt pcb + ucast (rcv_wnd pcb)) \<or>
              (rcv_nxt pcb \<le> seq seg + ucast (len seg) - 1 \<and>
               seq seg + ucast (len seg) - 1 < rcv_nxt pcb + ucast (rcv_wnd pcb))))"

text \<open>
  7th, process the segment text. \<open>memcpy\<close> writes \<open>n\<close> bytes at offset
  \<open>sizeof(buf) - rcv.wnd\<close>: with \<open>n\<close> above \<open>rcv.wnd\<close> it writes past the end of \<open>buf\<close>, and
  with \<open>n\<close> above the bytes present at \<open>data\<close> it reads past the received buffer. Both
  are the error \<open>BufferOverrun\<close>.
\<close>

definition arrives_text ::
  "tcp_world \<Rightarrow> nat \<Rightarrow> tcp_segment_info \<Rightarrow> u8 list \<Rightarrow> size_t \<Rightarrow> tcp_error + tcp_world"
where
  "arrives_text w i seg data n =
     (let pcb = pcbs w ! i in
      if state pcb = ESTABLISHED then
        (if n \<noteq> 0 then
           (if unat (rcv_wnd pcb) < unat n \<or> length data < unat n then Inl BufferOverrun
            else
              (let off = sizeof_buf - unat (rcv_wnd pcb);
                   pcb1 = pcb
                     \<lparr>buf := take off (buf pcb) @ take (unat n) data @
                             drop (off + unat n) (buf pcb),
                      rcv_nxt := seq seg + ucast (len seg),
                      rcv_wnd := rcv_wnd pcb - ucast n,
                      rx_stored := rx_stored pcb + unat n\<rparr>;
                   w1 = tcp_output (put_pcb w i pcb1) i TCP_FLG_ACK [] 0
               in Inr (sched_wakeup w1 i)))
         else Inr w)
      else Inr w)"

text \<open>5th, check the ACK field: \<open>case TCP_PCB_STATE_ESTABLISHED\<close>.\<close>

definition ack_established ::
  "tcp_world \<Rightarrow> nat \<Rightarrow> tcp_segment_info \<Rightarrow> u8 list \<Rightarrow> size_t \<Rightarrow> tcp_error + tcp_world"
where
  "ack_established w i seg data n =
     (let pcb = pcbs w ! i in
      if snd_una pcb < ack seg \<and> ack seg \<le> snd_nxt pcb then
        (let pcb1 = pcb\<lparr>snd_una := ack seg\<rparr>;
             pcb2 =
               (if snd_wl1 pcb1 < seq seg \<or>
                   (snd_wl1 pcb1 = seq seg \<and> snd_wl2 pcb1 \<le> ack seg)
                then pcb1\<lparr>snd_wnd := wnd seg, snd_wl1 := seq seg, snd_wl2 := ack seg\<rparr>
                else pcb1)
         in arrives_text (put_pcb w i pcb2) i seg data n)
      else if ack seg < snd_una pcb then arrives_text w i seg data n
      else if ack seg > snd_nxt pcb then Inr (tcp_output w i TCP_FLG_ACK [] 0)
      else arrives_text w i seg data n)"

text \<open>
  5th, check the ACK field: the switch, whose case SYN_RECEIVED falls through to the
  case ESTABLISHED.
\<close>

definition arrives_ack ::
  "tcp_world \<Rightarrow> nat \<Rightarrow> tcp_segment_info \<Rightarrow> u8 list \<Rightarrow> size_t \<Rightarrow> ip_endpoint \<Rightarrow> ip_endpoint \<Rightarrow>
   tcp_error + tcp_world"
where
  "arrives_ack w i seg data n lcl frn =
     (let pcb = pcbs w ! i in
      if state pcb = SYN_RECEIVED then
        (if snd_una pcb \<le> ack seg \<and> ack seg \<le> snd_nxt pcb then
           ack_established
             (sched_wakeup (put_pcb w i (pcb\<lparr>state := ESTABLISHED\<rparr>)) i) i seg data n
         else Inr (tcp_output_segment w (ack seg) 0 TCP_FLG_RST 0 [] 0 lcl frn))
      else if state pcb = ESTABLISHED then ack_established w i seg data n
      else arrives_text w i seg data n)"

text \<open>
  \<open>tcp_segment_arrives\<close>: \<open>data\<close> holds the bytes present at the payload pointer and \<open>n\<close> is
  the argument \<open>len\<close>.
\<close>

definition tcp_segment_arrives ::
  "tcp_world \<Rightarrow> tcp_segment_info \<Rightarrow> u8 \<Rightarrow> u8 list \<Rightarrow> size_t \<Rightarrow> ip_endpoint \<Rightarrow> ip_endpoint \<Rightarrow>
   u32 \<Rightarrow> tcp_error + tcp_world"
where
  "tcp_segment_arrives w seg flags data n lcl frn rnd =
     (case tcp_pcb_select w lcl (Some frn) of
        None \<Rightarrow> Inr (arrives_closed w seg flags lcl frn)
      | Some i \<Rightarrow>
          (let pcb = pcbs w ! i in
           if state pcb = CLOSED then Inr (arrives_closed w seg flags lcl frn)
           else if state pcb = LISTEN then Inr (arrives_listen w i seg flags lcl frn rnd)
           else if state pcb = SYN_SENT then Inr w
           else if (state pcb = SYN_RECEIVED \<or> state pcb = ESTABLISHED) \<and>
                   \<not> seq_acceptable pcb seg
             then Inr (if \<not> TCP_FLG_ISSET flags TCP_FLG_RST
                       then tcp_output w i TCP_FLG_ACK [] 0 else w)
           else if \<not> TCP_FLG_ISSET flags TCP_FLG_ACK then Inr w
           else arrives_ack w i seg data n lcl frn))"

section \<open>TCP: input\<close>

definition store16 :: "byteorder \<Rightarrow> u16 \<Rightarrow> u8 list" where
  "store16 bo v =
     (if bo = LITTLE_ENDIAN then [ucast v, ucast (drop_bit 8 v)]
      else [ucast (drop_bit 8 v), ucast v])"

text \<open>
  Modelled from the spec: ip.h is not among the sources. \<open>IP_PROTOCOL_TCP\<close> is the
  protocol number 6 of sections 4.1 and 4.2.
\<close>

definition IP_PROTOCOL_TCP :: u8 where
  "IP_PROTOCOL_TCP = 6"

text \<open>\<open>sizeof(struct tcp_hdr)\<close>.\<close>

definition sizeof_tcp_hdr :: nat where
  "sizeof_tcp_hdr = 20"

text \<open>The bytes of \<open>struct pseudo_hdr\<close> as \<open>tcp_input\<close> fills it in.\<close>

definition pseudo_hdr :: "byteorder \<Rightarrow> ip_addr_t \<Rightarrow> ip_addr_t \<Rightarrow> size_t \<Rightarrow> u8 list" where
  "pseudo_hdr bo src dst n =
     store32 bo src @ store32 bo dst @ [0, IP_PROTOCOL_TCP] @ store16 bo (hton16 bo (ucast n))"

text \<open>The header length \<open>(hdr->off >> 4) << 2\<close>, stored in a \<open>uint16_t\<close>.\<close>

definition tcp_hlen :: "u8 \<Rightarrow> u16" where
  "tcp_hlen off = push_bit 2 (drop_bit 4 (ucast off))"

text \<open>
  \<open>tcp_input\<close> up to the call of \<open>tcp_segment_arrives\<close>: an early return, or the
  arguments of the call. \<open>hdr + hlen\<close> is the received buffer without its first \<open>hlen\<close>
  bytes (nothing when \<open>hlen\<close> exceeds the length), and \<open>len - hlen\<close> is computed in
  \<open>size_t\<close>.
\<close>

definition tcp_input_args ::
  "byteorder \<Rightarrow> u8 list \<Rightarrow> ip_addr_t \<Rightarrow> ip_addr_t \<Rightarrow>
   tcp_error + (tcp_segment_info \<times> u8 \<times> u8 list \<times> size_t \<times> ip_endpoint \<times> ip_endpoint)"
where
  "tcp_input_args bo data src dst =
     (let n = (word_of_nat (length data) :: size_t) in
      if length data < sizeof_tcp_hdr then Inl SegmentTooShort
      else
        (let psum = NOT (cksum16 bo (pseudo_hdr bo src dst n) 0) in
         if cksum16 bo data psum \<noteq> 0 then Inl SegmentChecksumError
         else if src = IP_ADDR_BROADCAST \<or> dst = IP_ADDR_BROADCAST then Inl BroadcastDetected
         else
           (let lcl = \<lparr>addr = dst, port = load16 bo (data ! 2) (data ! 3)\<rparr>;
                frn = \<lparr>addr = src, port = load16 bo (data ! 0) (data ! 1)\<rparr>;
                hlen = tcp_hlen (data ! 12);
                flg = data ! 13;
                l0 = (ucast (n - ucast hlen) :: u16);
                l1 = (if TCP_FLG_ISSET flg TCP_FLG_SYN then l0 + 1 else l0);
                l2 = (if TCP_FLG_ISSET flg TCP_FLG_FIN then l1 + 1 else l1);
                seg = \<lparr>seq = ntoh32 bo (load32 bo (take 4 (drop 4 data))),
                       ack = ntoh32 bo (load32 bo (take 4 (drop 8 data))),
                       len = l2,
                       wnd = ntoh16 bo (load16 bo (data ! 14) (data ! 15)),
                       up = ntoh16 bo (load16 bo (data ! 18) (data ! 19))\<rparr>
            in Inr (seg, flg, drop (unat hlen) data, n - ucast hlen, lcl, frn))))"

definition tcp_input ::
  "byteorder \<Rightarrow> tcp_world \<Rightarrow> u8 list \<Rightarrow> ip_addr_t \<Rightarrow> ip_addr_t \<Rightarrow> u32 \<Rightarrow> tcp_error + tcp_world"
where
  "tcp_input bo w data src dst rnd =
     (case tcp_input_args bo data src dst of
        Inl e \<Rightarrow> Inl e
      | Inr (seg, flg, payload, n, lcl, frn) \<Rightarrow>
          tcp_segment_arrives w seg flg payload n lcl frn rnd)"

section \<open>TCP: user commands\<close>

datatype api_error =
    AllocFailure
  | PcbNotFound
  | UnknownState
  | EINTR

text \<open>
  Modelled from the spec: \<open>sched_sleep\<close> lives in the platform layer, which is not
  among the sources. Section 5: it gives the mutex up, blocks until a wakeup or an
  interrupt is posted, and takes the mutex again before it returns, so the module's
  state after the call is whatever the other threads have made of it. One
  return of \<open>sched_sleep\<close> is an input: \<open>Woken w\<close> for a return of 0 and \<open>Interrupted w\<close>
  for a return of -1, \<open>w\<close> being the state found on return. A blocking command takes
  the list of the returns its sleeps will see; when the list runs out the command is
  still asleep, which is the result \<open>None\<close>.
\<close>

datatype sched_wake = Woken tcp_world | Interrupted tcp_world

text \<open>
  \<open>tcp_open_rfc793\<close> with \<open>active = 0\<close>, from its entry to the label \<open>AGAIN\<close>: the slot is
  allocated and put in LISTEN.
\<close>

definition tcp_open_listen ::
  "tcp_world \<Rightarrow> ip_endpoint \<Rightarrow> ip_endpoint option \<Rightarrow> (api_error + nat) \<times> tcp_world"
where
  "tcp_open_listen w lcl frn =
     (case tcp_pcb_alloc w of
        (None, w1) \<Rightarrow> (Inl AllocFailure, w1)
      | (Some i, w1) \<Rightarrow>
          (let pcb1 = (pcbs w1 ! i)\<lparr>local := lcl\<rparr>;
               pcb2 = (case frn of None \<Rightarrow> pcb1 | Some f \<Rightarrow> pcb1\<lparr>foreign := f\<rparr>)
           in (Inr i, put_pcb w1 i (pcb2\<lparr>state := LISTEN\<rparr>))))"

text \<open>
  The tail of \<open>tcp_receive\<close> after the switch: \<open>out\<close> is the caller's buffer, of at
  least \<open>sz\<close> bytes. The result is the return value with the new state and the
  caller's buffer.
\<close>

definition receive_copy ::
  "tcp_world \<Rightarrow> nat \<Rightarrow> u8 list \<Rightarrow> size_t \<Rightarrow> nat \<times> tcp_world \<times> u8 list"
where
  "receive_copy w i out sz =
     (let pcb = pcbs w ! i;
          remain = sizeof_buf - unat (rcv_wnd pcb);
          n = min (unat sz) remain;
          pcb1 = pcb
            \<lparr>buf := take (remain - n) (drop n (buf pcb)) @ drop (remain - n) (buf pcb),
             rcv_wnd := rcv_wnd pcb + word_of_nat n,
             rx_taken := rx_taken pcb + n\<rparr>
      in (n, put_pcb w i pcb1, take n (buf pcb) @ drop n out))"

text \<open>\<open>tcp_receive\<close> from the label \<open>RETRY\<close> on, for the slot \<open>i\<close>.\<close>

fun receive_retry ::
  "nat \<Rightarrow> u8 list \<Rightarrow> size_t \<Rightarrow> tcp_world \<Rightarrow> sched_wake list \<Rightarrow>
   ((api_error + nat) \<times> tcp_world \<times> u8 list) option"
where
  "receive_retry i out sz w script =
     (if state (pcbs w ! i) = ESTABLISHED then
        (if sizeof_buf - unat (rcv_wnd (pcbs w ! i)) = 0 then
           (case script of
              [] \<Rightarrow> None
            | Interrupted w1 # rest \<Rightarrow> Some (Inl EINTR, w1, out)
            | Woken w1 # rest \<Rightarrow> receive_retry i out sz w1 rest)
         else
           (case receive_copy w i out sz of
              (n, w1, out1) \<Rightarrow> Some (Inr n, w1, out1)))
      else Some (Inl UnknownState, w, out))"

declare receive_retry.simps [simp del]

definition tcp_receive ::
  "tcp_world \<Rightarrow> int \<Rightarrow> u8 list \<Rightarrow> size_t \<Rightarrow> sched_wake list \<Rightarrow>
   ((api_error + nat) \<times> tcp_world \<times> u8 list) option"
where
  "tcp_receive w ident out sz script =
     (case tcp_pcb_get w ident of
        None \<Rightarrow> Some (Inl PcbNotFound, w, out)
      | Some i \<Rightarrow> receive_retry i out sz w script)"

section \<open>Sequence-space order\<close>

text \<open>
  Modelled from the spec: the sources have no helper that compares sequence numbers.
  Section 9 of the specification asks for \<open>lt\<close> and \<open>le\<close> on 32-bit wrapping integers:
  \<open>a\<close> comes before \<open>b\<close> when the difference \<open>a - b\<close>, computed modulo \<open>2^32\<close> and read as a
  signed 32-bit value, is negative.
\<close>

definition seq_lt :: "u32 \<Rightarrow> u32 \<Rightarrow> bool" where
  "seq_lt a b = (sint (a - b) < 0)"

definition seq_le :: "u32 \<Rightarrow> u32 \<Rightarrow> bool" where
  "seq_le a b = (a = b \<or> seq_lt a b)"

section \<open>The acceptability table of the specification\<close>

text \<open>
  Section 4.6 of the specification gives the sequence-number check as a table over
  \<open>seg.len\<close> and \<open>rcv.wnd\<close> and adds that all comparisons are in 32-bit modular sequence
  space. This is the table in the specification's words: \<open>x\<close> lies in
  \<open>[rcv.nxt, rcv.nxt + rcv.wnd)\<close> when \<open>rcv.nxt\<close> is at or before \<open>x\<close> and \<open>x\<close> is before
  \<open>rcv.nxt + rcv.wnd\<close> in sequence-space order, the sum taken modulo \<open>2^32\<close>. It is not
  taken from \<open>tcp_segment_arrives\<close>, whose own test is \<open>seq_acceptable\<close>.
\<close>

definition in_rcv_window :: "tcp_pcb \<Rightarrow> u32 \<Rightarrow> bool" where
  "in_rcv_window pcb x =
     (seq_le (rcv_nxt pcb) x \<and> seq_lt x (rcv_nxt pcb + ucast (rcv_wnd pcb)))"

definition acceptable_by_table :: "tcp_pcb \<Rightarrow> tcp_segment_info \<Rightarrow> bool" where
  "acceptable_by_table pcb seg =
     ((len seg = 0 \<and> rcv_wnd pcb = 0 \<and> seq seg = rcv_nxt pcb) \<or>
      (len seg = 0 \<and> rcv_wnd pcb \<noteq> 0 \<and> in_rcv_window pcb (seq seg)) \<or>
      (len seg \<noteq> 0 \<and> rcv_wnd pcb \<noteq> 0 \<and>
         (in_rcv_window pcb (seq seg) \<or> in_rcv_window pcb (seq seg + ucast (len seg) - 1))))"

section \<open>The states of the scenarios\<close>

text \<open>
  The end-to-end scenarios of section 8 of the specification run between the
  interface 10.0.0.2, port 80, and the peer 10.0.0.5, port 40000. Addresses and ports
  are the values a little-endian host reads from the headers.
\<close>

definition scenario_local :: ip_endpoint where
  "scenario_local = \<lparr>addr = 0x0200000A, port = 0x5000\<rparr>"

definition scenario_foreign :: ip_endpoint where
  "scenario_foreign = \<lparr>addr = 0x0500000A, port = 0x409C\<rparr>"

text \<open>The connection of the scenarios once established: \<open>iss = 7777\<close>, \<open>irs = 1000\<close>.\<close>

definition scenario_pcb :: tcp_pcb where
  "scenario_pcb = tcp_pcb_zero
     \<lparr>state := ESTABLISHED, local := scenario_local, foreign := scenario_foreign,
      snd_nxt := 7778, snd_una := 7778, iss := 7777,
      rcv_nxt := 1001, rcv_wnd := 65535, irs := 1000\<rparr>"

text \<open>The fresh table with slot 0 replaced.\<close>

definition world_with :: "tcp_pcb \<Rightarrow> tcp_world" where
  "world_with pcb = put_pcb tcp_world_init 0 pcb"

section \<open>Dotted quads\<close>

text \<open>The fields of a string between its dots.\<close>

primrec split_dots :: "string \<Rightarrow> string list" where
  "split_dots [] = [[]]"
| "split_dots (c # cs) =
     (if c = CHR ''.'' then [] # split_dots cs
      else (c # hd (split_dots cs)) # tl (split_dots cs))"

text \<open>
  A canonical octet is a decimal number from 0 to 255 without a sign and without
  leading zeros; a canonical dotted quad is four of them separated by single dots,
  with nothing before, between or after.
\<close>

definition canonical_octet :: "string \<Rightarrow> bool" where
  "canonical_octet ds =
     (ds \<noteq> [] \<and> list_all isdigit ds \<and> (length ds = 1 \<or> hd ds \<noteq> CHR ''0'') \<and>
      digits_val ds \<le> 255)"

definition canonical_quad :: "string \<Rightarrow> bool" where
  "canonical_quad s = (length (split_dots s) = 4 \<and> list_all canonical_octet (split_dots s))"

text \<open>
  What \<open>strtol\<close> lets through as one component: white space, then an optional sign,
  then nothing but digits, at least one, with a value of at most 255 that is 0 when the
  sign is a minus. \<open>field_digits\<close> is the field after its white space and sign.
\<close>

definition field_digits :: "string \<Rightarrow> string" where
  "field_digits f =
     (let t = dropWhile isspace f
      in if t \<noteq> [] \<and> (hd t = CHR ''-'' \<or> hd t = CHR ''+'') then tl t else t)"

definition field_neg :: "string \<Rightarrow> bool" where
  "field_neg f = (dropWhile isspace f \<noteq> [] \<and> hd (dropWhile isspace f) = CHR ''-'')"

definition octet_field :: "string \<Rightarrow> bool" where
  "octet_field f =
     (field_digits f \<noteq> [] \<and> list_all isdigit (field_digits f) \<and>
      digits_val (field_digits f) \<le> 255 \<and>
      (field_neg f \<longrightarrow> digits_val (field_digits f) = 0))"

definition pton_accepts :: "string \<Rightarrow> bool" where
  "pton_accepts s = (length (split_dots s) = 4 \<and> list_all octet_field (split_dots s))"

section \<open>Executions and the receive window\<close>

text \<open>The payload bytes appended to \<open>buf\<close> and not yet consumed by \<open>tcp_receive\<close>.\<close>

definition pending :: "tcp_pcb \<Rightarrow> nat" where
  "pending pcb = rx_stored pcb - rx_taken pcb"

text \<open>
  What holds of every slot at every point: in SYN_RECEIVED and ESTABLISHED the window
  and the pending bytes add up to the size of the buffer; a FREE or LISTEN slot has a
  window of 0 and nothing pending.
\<close>

definition rcv_inv :: "tcp_pcb \<Rightarrow> bool" where
  "rcv_inv pcb =
     ((state pcb = SYN_RECEIVED \<or> state pcb = ESTABLISHED \<longrightarrow>
         rx_taken pcb \<le> rx_stored pcb \<and> unat (rcv_wnd pcb) + pending pcb = sizeof_buf) \<and>
      (state pcb = FREE \<or> state pcb = LISTEN \<longrightarrow>
         rcv_wnd pcb = 0 \<and> rx_stored pcb = rx_taken pcb))"

text \<open>
  The states of the module that an execution can be in between two critical sections.
  All of tcp.c runs under one mutex, so an execution is a sequence of critical
  sections, each of which is one of these steps:
  \<^item> \<open>opened\<close>: \<open>tcp_open_rfc793\<close> from its entry to its first sleep;
  \<^item> \<open>arrived\<close>: one call of \<open>tcp_segment_arrives\<close> that does not overrun a buffer;
  \<^item> \<open>received\<close>: \<open>tcp_receive\<close> from \<open>RETRY\<close> to a return;
  \<^item> \<open>released\<close>: \<open>tcp_pcb_release\<close>, as \<open>tcp_close\<close>, \<open>tcp_send\<close> and \<open>tcp_open_rfc793\<close>
    call it;
  \<^item> \<open>closed\<close>: the assignment \<open>pcb->state = TCP_PCB_STATE_CLOSED\<close> of \<open>tcp_send\<close> and
    \<open>tcp_open_rfc793\<close>;
  \<^item> \<open>sent_data\<close>: the assignment to \<open>snd.nxt\<close> of \<open>tcp_send\<close>;
  \<^item> \<open>emitted\<close>: \<open>tcp_output\<close>, as \<open>tcp_send\<close> and \<open>tcp_close\<close> call it.
  The last four stand for the statements of \<open>tcp_send\<close>, \<open>tcp_close\<close> and the waiting loop
  of \<open>tcp_open_rfc793\<close> that change the state; they are allowed on any slot and with any
  value, which is more than the functions do.
\<close>

inductive reachable :: "tcp_world \<Rightarrow> bool" where
  init: "reachable tcp_world_init"
| opened: "reachable w \<Longrightarrow> tcp_open_listen w lcl frn = (r, w1) \<Longrightarrow> reachable w1"
| arrived:
    "reachable w \<Longrightarrow> tcp_segment_arrives w seg flags data n lcl frn rnd = Inr w1 \<Longrightarrow>
     reachable w1"
| received:
    "reachable w \<Longrightarrow> tcp_receive w ident out sz [] = Some (r, w1, out1) \<Longrightarrow> reachable w1"
| released: "reachable w \<Longrightarrow> reachable (tcp_pcb_release w i waiting)"
| closed: "reachable w \<Longrightarrow> reachable (put_pcb w i ((pcbs w ! i)\<lparr>state := CLOSED\<rparr>))"
| sent_data: "reachable w \<Longrightarrow> reachable (put_pcb w i ((pcbs w ! i)\<lparr>snd_nxt := x\<rparr>))"
| emitted: "reachable w \<Longrightarrow> reachable (tcp_output w i flg data n)"

section \<open>Facts about the platform layer\<close>

lemma store32_load32_quad:
  "store32 bo (load32 bo [a, b, c, d]) = [a, b, c, d]"
  unfolding store32_def load32_def Let_def
  by (cases bo; simp; intro conjI; rule bit_word_eqI;
      auto simp add: bit_simps dest: bit_imp_le_length)

lemmas ip_eval_defs =
  ip_input_def ip_iface_alloc_def ip_input_hlen_def ip_dump_hlen_def ip_input_dst_ok_def
  IP_HDR_SIZE_MIN_def IP_VERSION_IPV4_def ntoh16_def byteswap16_def load16_def
  cksum16_def fold16.simps ip_addr_pton_def pton_from.simps strtol_def isspace_def
  isdigit_def digits_val_def digit_val_def LONG_MAX_def LONG_MIN_def set_u8_def
  load32_def store32_def

lemma ip_input_hlen_little_endian:
  "ip_input_hlen LITTLE_ENDIAN vhl = 0"
proof -
  have c1: "(0x0f * 4 :: u16) = push_bit 2 (mask 4)"
    by (simp add: mask_eq_exp_minus_1)
  have c2: "(0xff00 :: u16) = push_bit 8 (mask 8)"
    by (simp add: mask_eq_exp_minus_1)
  have c3: "(0x00ff :: u16) = mask 8"
    by (simp add: mask_eq_exp_minus_1)
  show ?thesis
    unfolding ip_input_hlen_def ntoh16_def byteswap16_def c1 c2 c3
    by (simp, rule bit_word_eqI, auto simp add: bit_simps dest: bit_imp_le_length)
qed

section \<open>IP input: the claims\<close>

text \<open>
  C6. The claim: IP input derives the header length from the one byte \<open>vhl\<close> as
  \<open>(vhl & 0x0f) << 2\<close> and rejects every input shorter than it. The code does not:
  \<open>ntoh16(hdr->vhl) & 0x0f * 4\<close> is \<open>ntoh16(vhl) & 60\<close>, which is 0 for every \<open>vhl\<close> on a
  little-endian host and \<open>vhl & 60\<close> on a big-endian one. The 20 bytes below declare a
  header of 24 bytes (\<open>vhl = 0x46\<close>, as \<open>ip_dump\<close> computes it), carry a valid checksum and
  are addressed to the interface; \<open>ip_input\<close> lets them through on either host.
\<close>

theorem ip_input_header_length_not_enforced:
  "ip_input_hlen LITTLE_ENDIAN vhl = 0 \<and>
   ip_input_hlen BIG_ENDIAN 0x46 = 4 \<and>
   ip_dump_hlen 0x46 = 24 \<and>
   ip_input bo (Some (ip_iface_alloc bo ''10.0.0.2'' ''255.255.255.0''))
     [0x46, 0, 0, 0x14, 0, 0, 0, 0, 0x40, 6, 0x65, 0xE2, 10, 0, 0, 1, 10, 0, 0, 2] = Inr 20"
proof (intro conjI)
  show "ip_input_hlen LITTLE_ENDIAN vhl = 0"
    by (rule ip_input_hlen_little_endian)
  show "ip_input_hlen BIG_ENDIAN 0x46 = 4"
    by (simp add: ip_input_hlen_def ntoh16_def)
  show "ip_dump_hlen 0x46 = 24"
    by (simp add: ip_dump_hlen_def)
  show "ip_input bo (Some (ip_iface_alloc bo ''10.0.0.2'' ''255.255.255.0''))
     [0x46, 0, 0, 0x14, 0, 0, 0, 0, 0x40, 6, 0x65, 0xE2, 10, 0, 0, 1, 10, 0, 0, 2] = Inr 20"
    by (cases bo) (simp_all add: ip_eval_defs)
qed

theorem ip_input_header_length_not_enforced_witness:
  "ip_input_hlen LITTLE_ENDIAN 0x46 = 0 \<and>
   ip_input LITTLE_ENDIAN (Some (ip_iface_alloc LITTLE_ENDIAN ''10.0.0.2'' ''255.255.255.0''))
     [0x46, 0, 0, 0x14, 0, 0, 0, 0, 0x40, 6, 0x65, 0xE2, 10, 0, 0, 1, 10, 0, 0, 2] = Inr 20"
  using ip_input_header_length_not_enforced [of "0x46" LITTLE_ENDIAN] by simp

text \<open>
  C7. The claim: a datagram passes the destination test exactly when it is addressed to
  the interface's unicast address, to 255.255.255.255 or to the interface's stored
  broadcast address. The code compares with \<open>unicast | 0xff000000\<close> instead of the stored
  field. On the interface 10.0.0.2/255.255.0.0, whose stored broadcast address is
  10.0.255.255, a datagram to 10.0.255.255 is refused on either host, and on a
  little-endian host a datagram to 10.0.0.255, none of the three addresses, passes.
\<close>

theorem ip_input_directed_broadcast_mismatch:
  "broadcast (ip_iface_alloc bo ''10.0.0.2'' ''255.255.0.0'') =
     snd (ip_addr_pton bo ''10.0.255.255'' 0) \<and>
   ip_input bo (Some (ip_iface_alloc bo ''10.0.0.2'' ''255.255.0.0''))
     [0x45, 0, 0, 0x14, 0, 0, 0, 0, 0x40, 6, 0x66, 0xE4, 10, 0, 0, 1, 10, 0, 0xff, 0xff]
     = Inl NotForUs \<and>
   ip_input LITTLE_ENDIAN (Some (ip_iface_alloc LITTLE_ENDIAN ''10.0.0.2'' ''255.255.0.0''))
     [0x45, 0, 0, 0x14, 0, 0, 0, 0, 0x40, 6, 0x65, 0xE5, 10, 0, 0, 1, 10, 0, 0, 0xff]
     = Inr 20"
proof (intro conjI)
  show "broadcast (ip_iface_alloc bo ''10.0.0.2'' ''255.255.0.0'') =
     snd (ip_addr_pton bo ''10.0.255.255'' 0)"
    by (cases bo) (simp_all add: ip_eval_defs)
  show "ip_input bo (Some (ip_iface_alloc bo ''10.0.0.2'' ''255.255.0.0''))
     [0x45, 0, 0, 0x14, 0, 0, 0, 0, 0x40, 6, 0x66, 0xE4, 10, 0, 0, 1, 10, 0, 0xff, 0xff]
     = Inl NotForUs"
    by (cases bo) (simp_all add: ip_eval_defs)
  show "ip_input LITTLE_ENDIAN (Some (ip_iface_alloc LITTLE_ENDIAN ''10.0.0.2'' ''255.255.0.0''))
     [0x45, 0, 0, 0x14, 0, 0, 0, 0, 0x40, 6, 0x65, 0xE5, 10, 0, 0, 1, 10, 0, 0, 0xff]
     = Inr 20"
    by (simp add: ip_eval_defs)
qed

theorem ip_input_directed_broadcast_mismatch_witness:
  "ip_input BIG_ENDIAN (Some (ip_iface_alloc BIG_ENDIAN ''10.0.0.2'' ''255.255.0.0''))
     [0x45, 0, 0, 0x14, 0, 0, 0, 0, 0x40, 6, 0x66, 0xE4, 10, 0, 0, 1, 10, 0, 0xff, 0xff]
     = Inl NotForUs"
  using ip_input_directed_broadcast_mismatch [of BIG_ENDIAN] by simp

section \<open>Facts about the TCP model\<close>

lemma select_from_range:
  "select_from ps k lcl frn acc = Some i \<Longrightarrow> acc = Some i \<or> (k \<le> i \<and> i < k + length ps)"
proof (induction ps arbitrary: k acc)
  case Nil
  then show ?case by simp
next
  case (Cons p ps)
  then show ?case
    by (fastforce split: if_splits option.splits)
qed

lemma tcp_pcb_select_bound:
  "tcp_pcb_select w lcl frn = Some i \<Longrightarrow> i < length (pcbs w)"
  using select_from_range [of "pcbs w" 0 lcl frn None i]
  by (simp add: tcp_pcb_select_def)

lemma put_pcb_simps [simp]:
  "pcbs (put_pcb w i p) = (pcbs w)[i := p]"
  "sent (put_pcb w i p) = sent w"
  "woken (put_pcb w i p) = woken w"
  by (simp_all add: put_pcb_def)

lemma sched_wakeup_simps [simp]:
  "pcbs (sched_wakeup w i) = pcbs w"
  "sent (sched_wakeup w i) = sent w"
  "woken (sched_wakeup w i) = woken w @ [i]"
  by (simp_all add: sched_wakeup_def)

lemma tcp_output_segment_simps [simp]:
  "pcbs (tcp_output_segment w sq ak flg wn data n lcl frn) = pcbs w"
  "woken (tcp_output_segment w sq ak flg wn data n lcl frn) = woken w"
  "sent (tcp_output_segment w sq ak flg wn data n lcl frn) =
     sent w @ [\<lparr>tx_seq = sq, tx_ack = ak, tx_flg = flg, tx_wnd = wn,
                tx_data = take (unat n) data, tx_local = lcl, tx_foreign = frn\<rparr>]"
  by (simp_all add: tcp_output_segment_def)

lemma tcp_output_simps [simp]:
  "pcbs (tcp_output w i flg data n) = pcbs w"
  "woken (tcp_output w i flg data n) = woken w"
  by (simp_all add: tcp_output_def Let_def)

lemma replicate16:
  "replicate 16 x = [x, x, x, x, x, x, x, x, x, x, x, x, x, x, x, x]"
  by (simp add: numeral_eq_Suc)

lemmas tcp_eval_defs =
  tcp_world_init_def TCP_PCB_SIZE_def replicate16 tcp_pcb_zero_def tcp_pcb_select_def
  tcp_pcb_get_def IP_ADDR_ANY_def TCP_FLG_ISSET_def TCP_FLG_FIN_def TCP_FLG_SYN_def
  TCP_FLG_RST_def TCP_FLG_PSH_def TCP_FLG_ACK_def world_with_def scenario_pcb_def
  scenario_local_def scenario_foreign_def put_pcb_def

lemmas arrives_eval_defs =
  tcp_segment_arrives_def arrives_closed_def arrives_listen_def seq_acceptable_def
  arrives_ack_def ack_established_def arrives_text_def tcp_output_def tcp_output_segment_def
  sched_wakeup_def Let_def

text \<open>Sequence-space order on the numbers.\<close>

lemma sint_neg_iff:
  "sint (x :: u32) < 0 \<longleftrightarrow> 2 ^ 31 \<le> unat x"
proof -
  have lt: "unat x < 2 ^ 32" using unsigned_less [of x] by simp
  have b: "bit x 31 \<longleftrightarrow> odd (unat x div 2 ^ 31)"
    using bit_unsigned_iff [of x 31, where ?'a = nat] by (simp add: bit_iff_odd)
  have d: "unat x div 2 ^ 31 < 2"
    using lt by (simp add: less_mult_imp_div_less)
  have p: "2 ^ 31 \<le> unat x \<longleftrightarrow> 0 < unat x div 2 ^ 31"
    by (simp add: div_greater_zero_iff)
  have "odd (unat x div 2 ^ 31) \<longleftrightarrow> 0 < unat x div 2 ^ 31"
    using d by (cases "unat x div 2 ^ 31 = 0") (auto simp add: less_2_cases_iff)
  then show ?thesis using bit_last_iff [of x] b p by simp
qed

lemma seq_lt_nat:
  "seq_lt a b \<longleftrightarrow>
     (if unat b \<le> unat a then 2 ^ 31 \<le> unat a - unat b else unat b \<le> unat a + 2 ^ 31)"
proof -
  have la: "unat a < 2 ^ 32" using unsigned_less [of a] by simp
  have lb: "unat b < 2 ^ 32" using unsigned_less [of b] by simp
  show ?thesis
    unfolding seq_lt_def sint_neg_iff unat_sub_if'
    using la lb by auto
qed

lemma seq_le_nat:
  "seq_le a b \<longleftrightarrow>
     (if unat b \<le> unat a then unat a = unat b \<or> 2 ^ 31 \<le> unat a - unat b
      else unat b \<le> unat a + 2 ^ 31)"
  unfolding seq_le_def seq_lt_nat by (auto simp add: word_unat_eq_iff)

text \<open>The right edge of the window as the sources compute it: the sum wraps at \<open>2^32\<close>.\<close>

lemma window_sum:
  fixes a :: u32 and wn :: u16
  shows "unat (a + ucast wn) =
     (if unat a + unat wn < 2 ^ 32 then unat a + unat wn else unat a + unat wn - 2 ^ 32)"
proof -
  have l16: "unat wn < 65536" using unsigned_less [of wn] by simp
  then have lw: "unat wn < 2 ^ 32" by simp
  have u: "unat (ucast wn :: u32) = unat wn"
    using lw by (simp add: unsigned_ucast_eq take_bit_nat_eq_self)
  have la: "unat a < 2 ^ 32" using unsigned_less [of a] by simp
  show ?thesis
    using la lw by (simp add: unat_word_ariths u mod_if)
qed

text \<open>
  As long as \<open>rcv.nxt + rcv.wnd\<close> stays below \<open>2^32\<close>, the unsigned comparisons of the
  sources decide membership in the window as sequence-space order does.
\<close>

lemma window_no_wrap:
  fixes a x :: u32 and wn :: u16
  assumes "unat a + unat wn < 2 ^ 32" and "wn \<noteq> 0"
  shows "seq_le a x \<and> seq_lt x (a + ucast wn) \<longleftrightarrow> a \<le> x \<and> x < a + ucast wn"
proof -
  have lw: "unat wn < 65536" using unsigned_less [of wn] by simp
  have lx: "unat x < 2 ^ 32" using unsigned_less [of x] by simp
  have w0: "0 < unat wn" using assms(2) by (simp add: unat_gt_0)
  show ?thesis
    unfolding seq_le_nat seq_lt_nat word_le_nat_alt word_less_nat_alt window_sum
    using assms(1) lw lx w0 by auto
qed

text \<open>
  Once \<open>rcv.nxt + rcv.wnd\<close> reaches \<open>2^32\<close>, \<open>rcv.nxt\<close> is still in the window in
  sequence-space order, and the unsigned comparisons of the sources hold for no \<open>x\<close>.
\<close>

lemma window_wrap:
  fixes a x :: u32 and wn :: u16
  assumes "2 ^ 32 \<le> unat a + unat wn"
  shows "seq_le a a" "seq_lt a (a + ucast wn)" "\<not> (a \<le> x \<and> x < a + ucast wn)"
proof -
  have lw: "unat wn < 65536" using unsigned_less [of wn] by simp
  have la: "unat a < 2 ^ 32" using unsigned_less [of a] by simp
  show "seq_le a a" by (simp add: seq_le_def)
  show "seq_lt a (a + ucast wn)"
    unfolding seq_lt_nat window_sum using assms lw la by auto
  show "\<not> (a \<le> x \<and> x < a + ucast wn)"
    unfolding word_le_nat_alt word_less_nat_alt window_sum using assms lw la by auto
qed

lemma seq_acceptable_table:
  assumes "unat (rcv_nxt pcb) + unat (rcv_wnd pcb) < 2 ^ 32"
  shows "seq_acceptable pcb seg = acceptable_by_table pcb seg"
  using window_no_wrap [OF assms]
  by (auto simp add: seq_acceptable_def acceptable_by_table_def in_rcv_window_def)

lemma seq_acceptable_wrap:
  assumes "2 ^ 32 \<le> unat (rcv_nxt pcb) + unat (rcv_wnd pcb)"
  shows "\<not> seq_acceptable pcb seg"
proof -
  have "unat (rcv_nxt pcb) < 2 ^ 32"
    using unsigned_less [of "rcv_nxt pcb"] by simp
  then have "rcv_wnd pcb \<noteq> 0"
    using assms by auto
  then show ?thesis
    using window_wrap(3) [OF assms] by (simp add: seq_acceptable_def)
qed

lemma table_accepts_next:
  assumes "2 ^ 32 \<le> unat (rcv_nxt pcb) + unat (rcv_wnd pcb)" and "seq seg = rcv_nxt pcb"
  shows "acceptable_by_table pcb seg"
proof -
  have "unat (rcv_nxt pcb) < 2 ^ 32"
    using unsigned_less [of "rcv_nxt pcb"] by simp
  then have "rcv_wnd pcb \<noteq> 0"
    using assms(1) by auto
  then show ?thesis
    using window_wrap(1,2) [OF assms(1)] assms(2)
    by (simp add: acceptable_by_table_def in_rcv_window_def)
qed

lemma world_with_slot0:
  "pcbs (world_with p) ! 0 = p" "length (pcbs (world_with p)) = TCP_PCB_SIZE"
  by (simp_all add: world_with_def tcp_world_init_def TCP_PCB_SIZE_def)

lemma world_with_get0:
  "state p \<noteq> FREE \<Longrightarrow> tcp_pcb_get (world_with p) 0 = Some 0"
  by (simp add: tcp_pcb_get_def world_with_slot0 TCP_PCB_SIZE_def)

section \<open>TCP segment arrival: the claims\<close>

text \<open>
  C4. When selection finds no PCB for an arriving segment, or finds a CLOSED one: a
  segment with RST is dropped and nothing is emitted; otherwise a segment without ACK
  is answered by exactly one RST|ACK with \<open>seq = 0\<close> and \<open>ack = seg.seq + seg.len\<close>, and a
  segment with ACK by exactly one RST with \<open>seq = seg.ack\<close>. In every case the array of
  PCBs is the one before the arrival.
\<close>

theorem no_pcb_reply:
  assumes "case tcp_pcb_select w lcl (Some frn) of
             None \<Rightarrow> True | Some i \<Rightarrow> state (pcbs w ! i) = CLOSED"
  shows "tcp_segment_arrives w seg flags data n lcl frn rnd =
     Inr (if TCP_FLG_ISSET flags TCP_FLG_RST then w
          else if \<not> TCP_FLG_ISSET flags TCP_FLG_ACK then
            w\<lparr>sent := sent w @
              [\<lparr>tx_seq = 0, tx_ack = seq seg + ucast (len seg),
                tx_flg = TCP_FLG_RST OR TCP_FLG_ACK, tx_wnd = 0, tx_data = [],
                tx_local = lcl, tx_foreign = frn\<rparr>]\<rparr>
          else
            w\<lparr>sent := sent w @
              [\<lparr>tx_seq = ack seg, tx_ack = 0, tx_flg = TCP_FLG_RST, tx_wnd = 0, tx_data = [],
                tx_local = lcl, tx_foreign = frn\<rparr>]\<rparr>)"
  using assms
  by (auto simp add: tcp_segment_arrives_def arrives_closed_def tcp_output_segment_def Let_def
      split: option.splits)

theorem no_pcb_reply_witness:
  "tcp_segment_arrives tcp_world_init \<lparr>seq = 9, ack = 0, len = 1, wnd = 0, up = 0\<rparr>
     TCP_FLG_SYN [] 0 scenario_local scenario_foreign 1 =
   Inr (tcp_world_init\<lparr>sent :=
     [\<lparr>tx_seq = 0, tx_ack = 10, tx_flg = 0x14, tx_wnd = 0, tx_data = [],
       tx_local = scenario_local, tx_foreign = scenario_foreign\<rparr>]\<rparr>)"
  using no_pcb_reply [of tcp_world_init scenario_local scenario_foreign
      "\<lparr>seq = 9, ack = 0, len = 1, wnd = 0, up = 0\<rparr>" TCP_FLG_SYN "[]" 0 1]
  by (simp add: tcp_eval_defs)

text \<open>
  C1. A segment that arrives at a PCB in LISTEN: with RST it is dropped and nothing
  changes; else with ACK a RST with \<open>seq = seg.ack\<close> is emitted and nothing else changes;
  else with SYN the PCB takes the endpoints of the arrival, \<open>rcv.wnd = 65535\<close>,
  \<open>rcv.nxt = seg.seq + 1\<close>, \<open>irs = seg.seq\<close> and the random \<open>iss\<close>, exactly one SYN|ACK with
  \<open>seq = iss\<close> and \<open>ack = seg.seq + 1\<close> is emitted, and the PCB ends with
  \<open>snd.nxt = iss + 1\<close>, \<open>snd.una = iss\<close> in SYN_RECEIVED; any other segment is dropped.
\<close>

theorem listen_arrival:
  assumes sel: "tcp_pcb_select w lcl (Some frn) = Some i"
    and st: "state (pcbs w ! i) = LISTEN"
  shows "tcp_segment_arrives w seg flags data n lcl frn rnd =
     Inr (if TCP_FLG_ISSET flags TCP_FLG_RST then w
          else if TCP_FLG_ISSET flags TCP_FLG_ACK then
            w\<lparr>sent := sent w @
              [\<lparr>tx_seq = ack seg, tx_ack = 0, tx_flg = TCP_FLG_RST, tx_wnd = 0, tx_data = [],
                tx_local = lcl, tx_foreign = frn\<rparr>]\<rparr>
          else if TCP_FLG_ISSET flags TCP_FLG_SYN then
            w\<lparr>pcbs := (pcbs w)[i := (pcbs w ! i)
                   \<lparr>local := lcl, foreign := frn, rcv_wnd := 65535, rcv_nxt := seq seg + 1,
                    irs := seq seg, iss := rnd, snd_nxt := rnd + 1, snd_una := rnd,
                    state := SYN_RECEIVED\<rparr>],
              sent := sent w @
                [\<lparr>tx_seq = rnd, tx_ack = seq seg + 1, tx_flg = TCP_FLG_SYN OR TCP_FLG_ACK,
                  tx_wnd = 65535, tx_data = [], tx_local = lcl, tx_foreign = frn\<rparr>]\<rparr>
          else w)"
proof -
  have i: "i < length (pcbs w)"
    using sel by (rule tcp_pcb_select_bound)
  have syn: "TCP_FLG_ISSET (TCP_FLG_SYN OR TCP_FLG_ACK) TCP_FLG_SYN"
    by (simp add: TCP_FLG_ISSET_def TCP_FLG_SYN_def TCP_FLG_ACK_def)
  show ?thesis
    using sel st i syn
    by (simp add: tcp_segment_arrives_def arrives_listen_def Let_def tcp_output_def
        tcp_output_segment_def put_pcb_def sizeof_buf_def)
qed



theorem listen_arrival_witness:
  "tcp_segment_arrives
     (world_with (tcp_pcb_zero\<lparr>state := LISTEN, local := \<lparr>addr = 0, port = 0x5000\<rparr>\<rparr>))
     \<lparr>seq = 1000, ack = 0, len = 1, wnd = 4096, up = 0\<rparr>
     TCP_FLG_SYN [] 0 scenario_local scenario_foreign 7777 =
   Inr ((world_with (scenario_pcb\<lparr>rx_stored := 0, snd_una := 7777, state := SYN_RECEIVED\<rparr>))
     \<lparr>sent :=
       [\<lparr>tx_seq = 7777, tx_ack = 1001, tx_flg = 0x12, tx_wnd = 65535, tx_data = [],
         tx_local = scenario_local, tx_foreign = scenario_foreign\<rparr>]\<rparr>)"
  using listen_arrival
    [of "world_with (tcp_pcb_zero\<lparr>state := LISTEN, local := \<lparr>addr = 0, port = 0x5000\<rparr>\<rparr>)"
      scenario_local scenario_foreign 0
      "\<lparr>seq = 1000, ack = 0, len = 1, wnd = 4096, up = 0\<rparr>" TCP_FLG_SYN "[]" 0 7777]
  by (simp add: tcp_eval_defs)

text \<open>
  C2. The claim: a segment that arrives at a PCB in SYN_RECEIVED or ESTABLISHED is
  acceptable exactly when the table of section 4.6 says so, its comparisons made in
  32-bit modular sequence space, and an unacceptable segment without RST is answered
  by exactly one bare ACK with \<open>ack = rcv.nxt\<close> and \<open>wnd = rcv.wnd\<close> while the PCBs, their
  buffers included, stay as they were. The code computes \<open>rcv.nxt + rcv.wnd\<close> modulo
  \<open>2^32\<close> and compares the raw unsigned values. As long as \<open>rcv.nxt + rcv.wnd\<close> stays below
  \<open>2^32\<close> it does what the claim says: the table decides, an acceptable segment goes on
  to the check of the ACK bit, an unacceptable one without RST gets the bare ACK. Once
  \<open>rcv.nxt + rcv.wnd\<close> reaches \<open>2^32\<close> the code finds every segment unacceptable: also the
  segment with \<open>seg.seq = rcv.nxt\<close>, the very octet expected next, which the table accepts
  whatever its length, is answered with a bare ACK and dropped. The witness runs the
  scenario of section 8 (\<open>rcv.nxt = 1001\<close>, \<open>seg.seq = 500\<close>) and an established
  connection with \<open>rcv.nxt = 0xffff8000\<close> and the whole window open, at which the three
  octets \<open>abc\<close> arrive in order with \<open>seg.seq = 0xffff8000\<close>.
\<close>

theorem sequence_check_wraparound:
  assumes sel: "tcp_pcb_select w lcl (Some frn) = Some i"
    and st: "state (pcbs w ! i) = SYN_RECEIVED \<or> state (pcbs w ! i) = ESTABLISHED"
  shows "(unat (rcv_nxt (pcbs w ! i)) + unat (rcv_wnd (pcbs w ! i)) < 2 ^ 32 \<longrightarrow>
      tcp_segment_arrives w seg flags data n lcl frn rnd =
       (if acceptable_by_table (pcbs w ! i) seg then
          (if TCP_FLG_ISSET flags TCP_FLG_ACK then arrives_ack w i seg data n lcl frn
           else Inr w)
        else if TCP_FLG_ISSET flags TCP_FLG_RST then Inr w
        else
          Inr (w\<lparr>sent := sent w @
            [\<lparr>tx_seq = snd_nxt (pcbs w ! i), tx_ack = rcv_nxt (pcbs w ! i),
              tx_flg = TCP_FLG_ACK, tx_wnd = rcv_wnd (pcbs w ! i), tx_data = [],
              tx_local = local (pcbs w ! i), tx_foreign = foreign (pcbs w ! i)\<rparr>]\<rparr>))) \<and>
     (2 ^ 32 \<le> unat (rcv_nxt (pcbs w ! i)) + unat (rcv_wnd (pcbs w ! i)) \<longrightarrow>
      (seq seg = rcv_nxt (pcbs w ! i) \<longrightarrow> acceptable_by_table (pcbs w ! i) seg) \<and>
      tcp_segment_arrives w seg flags data n lcl frn rnd =
       (if TCP_FLG_ISSET flags TCP_FLG_RST then Inr w
        else
          Inr (w\<lparr>sent := sent w @
            [\<lparr>tx_seq = snd_nxt (pcbs w ! i), tx_ack = rcv_nxt (pcbs w ! i),
              tx_flg = TCP_FLG_ACK, tx_wnd = rcv_wnd (pcbs w ! i), tx_data = [],
              tx_local = local (pcbs w ! i), tx_foreign = foreign (pcbs w ! i)\<rparr>]\<rparr>)))"
proof -
  have nosyn: "\<not> TCP_FLG_ISSET TCP_FLG_ACK TCP_FLG_SYN"
    by (simp add: TCP_FLG_ISSET_def TCP_FLG_SYN_def TCP_FLG_ACK_def)
  have code: "tcp_segment_arrives w seg flags data n lcl frn rnd =
       (if seq_acceptable (pcbs w ! i) seg then
          (if TCP_FLG_ISSET flags TCP_FLG_ACK then arrives_ack w i seg data n lcl frn
           else Inr w)
        else if TCP_FLG_ISSET flags TCP_FLG_RST then Inr w
        else
          Inr (w\<lparr>sent := sent w @
            [\<lparr>tx_seq = snd_nxt (pcbs w ! i), tx_ack = rcv_nxt (pcbs w ! i),
              tx_flg = TCP_FLG_ACK, tx_wnd = rcv_wnd (pcbs w ! i), tx_data = [],
              tx_local = local (pcbs w ! i), tx_foreign = foreign (pcbs w ! i)\<rparr>]\<rparr>))"
    using sel st nosyn
    by (auto simp add: tcp_segment_arrives_def Let_def tcp_output_def tcp_output_segment_def)
  show ?thesis
  proof (intro conjI impI)
    assume "unat (rcv_nxt (pcbs w ! i)) + unat (rcv_wnd (pcbs w ! i)) < 2 ^ 32"
    then show "tcp_segment_arrives w seg flags data n lcl frn rnd =
       (if acceptable_by_table (pcbs w ! i) seg then
          (if TCP_FLG_ISSET flags TCP_FLG_ACK then arrives_ack w i seg data n lcl frn
           else Inr w)
        else if TCP_FLG_ISSET flags TCP_FLG_RST then Inr w
        else
          Inr (w\<lparr>sent := sent w @
            [\<lparr>tx_seq = snd_nxt (pcbs w ! i), tx_ack = rcv_nxt (pcbs w ! i),
              tx_flg = TCP_FLG_ACK, tx_wnd = rcv_wnd (pcbs w ! i), tx_data = [],
              tx_local = local (pcbs w ! i), tx_foreign = foreign (pcbs w ! i)\<rparr>]\<rparr>))"
      unfolding code by (simp only: seq_acceptable_table)
  next
    assume "2 ^ 32 \<le> unat (rcv_nxt (pcbs w ! i)) + unat (rcv_wnd (pcbs w ! i))"
      and "seq seg = rcv_nxt (pcbs w ! i)"
    then show "acceptable_by_table (pcbs w ! i) seg"
      by (rule table_accepts_next)
  next
    assume "2 ^ 32 \<le> unat (rcv_nxt (pcbs w ! i)) + unat (rcv_wnd (pcbs w ! i))"
    then have "\<not> seq_acceptable (pcbs w ! i) seg"
      by (rule seq_acceptable_wrap)
    then show "tcp_segment_arrives w seg flags data n lcl frn rnd =
       (if TCP_FLG_ISSET flags TCP_FLG_RST then Inr w
        else
          Inr (w\<lparr>sent := sent w @
            [\<lparr>tx_seq = snd_nxt (pcbs w ! i), tx_ack = rcv_nxt (pcbs w ! i),
              tx_flg = TCP_FLG_ACK, tx_wnd = rcv_wnd (pcbs w ! i), tx_data = [],
              tx_local = local (pcbs w ! i), tx_foreign = foreign (pcbs w ! i)\<rparr>]\<rparr>))"
      unfolding code by simp
  qed
qed

theorem sequence_check_wraparound_witness:
  "tcp_pcb_select (world_with scenario_pcb) scenario_local (Some scenario_foreign) = Some 0 \<and>
   state (pcbs (world_with scenario_pcb) ! 0) = ESTABLISHED \<and>
   unat (rcv_nxt (pcbs (world_with scenario_pcb) ! 0)) +
     unat (rcv_wnd (pcbs (world_with scenario_pcb) ! 0)) < 2 ^ 32 \<and>
   \<not> acceptable_by_table (pcbs (world_with scenario_pcb) ! 0)
       \<lparr>seq = 500, ack = 7778, len = 0, wnd = 4096, up = 0\<rparr> \<and>
   tcp_segment_arrives (world_with scenario_pcb)
     \<lparr>seq = 500, ack = 7778, len = 0, wnd = 4096, up = 0\<rparr>
     TCP_FLG_ACK [] 0 scenario_local scenario_foreign 1 =
   Inr ((world_with scenario_pcb)\<lparr>sent :=
     [\<lparr>tx_seq = 7778, tx_ack = 1001, tx_flg = TCP_FLG_ACK, tx_wnd = 65535, tx_data = [],
       tx_local = scenario_local, tx_foreign = scenario_foreign\<rparr>]\<rparr>) \<and>
   tcp_pcb_select (world_with (scenario_pcb\<lparr>rcv_nxt := 0xffff8000\<rparr>))
     scenario_local (Some scenario_foreign) = Some 0 \<and>
   state (pcbs (world_with (scenario_pcb\<lparr>rcv_nxt := 0xffff8000\<rparr>)) ! 0) = ESTABLISHED \<and>
   2 ^ 32 \<le> unat (rcv_nxt (pcbs (world_with (scenario_pcb\<lparr>rcv_nxt := 0xffff8000\<rparr>)) ! 0)) +
     unat (rcv_wnd (pcbs (world_with (scenario_pcb\<lparr>rcv_nxt := 0xffff8000\<rparr>)) ! 0)) \<and>
   acceptable_by_table (pcbs (world_with (scenario_pcb\<lparr>rcv_nxt := 0xffff8000\<rparr>)) ! 0)
     \<lparr>seq = 0xffff8000, ack = 7778, len = 3, wnd = 4096, up = 0\<rparr> \<and>
   tcp_segment_arrives (world_with (scenario_pcb\<lparr>rcv_nxt := 0xffff8000\<rparr>))
     \<lparr>seq = 0xffff8000, ack = 7778, len = 3, wnd = 4096, up = 0\<rparr>
     0x18 [0x61, 0x62, 0x63] 3 scenario_local scenario_foreign 1 =
   Inr ((world_with (scenario_pcb\<lparr>rcv_nxt := 0xffff8000\<rparr>))\<lparr>sent :=
     [\<lparr>tx_seq = 7778, tx_ack = 0xffff8000, tx_flg = TCP_FLG_ACK, tx_wnd = 65535,
       tx_data = [], tx_local = scenario_local, tx_foreign = scenario_foreign\<rparr>]\<rparr>)"
proof -
  have sel: "tcp_pcb_select (world_with p) scenario_local (Some scenario_foreign) = Some 0"
    if "p = scenario_pcb \<or> p = scenario_pcb\<lparr>rcv_nxt := 0xffff8000\<rparr>" for p
    using that by (auto simp add: tcp_eval_defs)
  have slot: "pcbs (world_with p) ! 0 = p" for p
    by (rule world_with_slot0)
  have st: "state scenario_pcb = ESTABLISHED"
    "state (scenario_pcb\<lparr>rcv_nxt := 0xffff8000\<rparr>) = ESTABLISHED"
    by (simp_all add: scenario_pcb_def)
  have lo: "unat (rcv_nxt scenario_pcb) + unat (rcv_wnd scenario_pcb) < 2 ^ 32"
    by (simp add: scenario_pcb_def)
  have hi: "2 ^ 32 \<le> unat (rcv_nxt (scenario_pcb\<lparr>rcv_nxt := 0xffff8000\<rparr>)) +
      unat (rcv_wnd (scenario_pcb\<lparr>rcv_nxt := 0xffff8000\<rparr>))"
    by (simp add: scenario_pcb_def)
  have no: "\<not> acceptable_by_table scenario_pcb
      \<lparr>seq = 500, ack = 7778, len = 0, wnd = 4096, up = 0\<rparr>"
    by (simp add: acceptable_by_table_def in_rcv_window_def seq_le_def seq_lt_def
        scenario_pcb_def)
  have flg: "\<not> TCP_FLG_ISSET TCP_FLG_ACK TCP_FLG_RST" "\<not> TCP_FLG_ISSET 0x18 TCP_FLG_RST"
    by (simp_all add: TCP_FLG_ISSET_def TCP_FLG_ACK_def TCP_FLG_RST_def)
  note a = sequence_check_wraparound [where w = "world_with scenario_pcb" and lcl = scenario_local
      and frn = scenario_foreign and i = 0
      and seg = "\<lparr>seq = 500, ack = 7778, len = 0, wnd = 4096, up = 0\<rparr>"
      and flags = TCP_FLG_ACK and data = "[]" and n = 0 and rnd = 1,
      unfolded slot, OF sel [of scenario_pcb, simplified] disjI2 [OF st(1)],
      THEN conjunct1, rule_format, OF lo]
  note b = sequence_check_wraparound
      [where w = "world_with (scenario_pcb\<lparr>rcv_nxt := 0xffff8000\<rparr>)"
      and lcl = scenario_local and frn = scenario_foreign and i = 0
      and seg = "\<lparr>seq = 0xffff8000, ack = 7778, len = 3, wnd = 4096, up = 0\<rparr>"
      and flags = "0x18" and data = "[0x61, 0x62, 0x63]" and n = 3 and rnd = 1,
      unfolded slot, OF sel [of "scenario_pcb\<lparr>rcv_nxt := 0xffff8000\<rparr>", simplified]
      disjI2 [OF st(2)], THEN conjunct2, rule_format, OF hi]
  have tbl: "acceptable_by_table (scenario_pcb\<lparr>rcv_nxt := 0xffff8000\<rparr>)
      \<lparr>seq = 0xffff8000, ack = 7778, len = 3, wnd = 4096, up = 0\<rparr>"
    using b [THEN conjunct1] by simp
  have vals: "snd_nxt scenario_pcb = 7778" "rcv_nxt scenario_pcb = 1001"
    "rcv_wnd scenario_pcb = 65535" "local scenario_pcb = scenario_local"
    "foreign scenario_pcb = scenario_foreign"
    by (simp_all add: scenario_pcb_def)
  have unsent: "sent (world_with p) = []" for p
    by (simp add: world_with_def tcp_world_init_def)
  have r1: "tcp_segment_arrives (world_with scenario_pcb)
       \<lparr>seq = 500, ack = 7778, len = 0, wnd = 4096, up = 0\<rparr>
       TCP_FLG_ACK [] 0 scenario_local scenario_foreign 1 =
     Inr ((world_with scenario_pcb)\<lparr>sent :=
       [\<lparr>tx_seq = 7778, tx_ack = 1001, tx_flg = TCP_FLG_ACK, tx_wnd = 65535, tx_data = [],
         tx_local = scenario_local, tx_foreign = scenario_foreign\<rparr>]\<rparr>)"
    unfolding a unsent by (simp add: no flg vals)
  have r2: "tcp_segment_arrives (world_with (scenario_pcb\<lparr>rcv_nxt := 0xffff8000\<rparr>))
       \<lparr>seq = 0xffff8000, ack = 7778, len = 3, wnd = 4096, up = 0\<rparr>
       0x18 [0x61, 0x62, 0x63] 3 scenario_local scenario_foreign 1 =
     Inr ((world_with (scenario_pcb\<lparr>rcv_nxt := 0xffff8000\<rparr>))\<lparr>sent :=
       [\<lparr>tx_seq = 7778, tx_ack = 0xffff8000, tx_flg = TCP_FLG_ACK, tx_wnd = 65535,
         tx_data = [], tx_local = scenario_local, tx_foreign = scenario_foreign\<rparr>]\<rparr>)"
    unfolding b [THEN conjunct2] unsent by (simp add: flg scenario_pcb_def)
  show ?thesis
    unfolding slot
    by (intro conjI sel disjI1 disjI2 refl st lo hi no tbl r1 r2)
qed


text \<open>
  C3. The claim: every comparison of sequence and acknowledgment numbers in segment
  arrival is made in sequence-space order, so that it is right when the interval
  spans the wrap at \<open>2^32\<close>. The code compares the raw \<open>uint32_t\<close> values with \<open><\<close> and
  \<open><=\<close>; only the sums wrap. A peer opens with the initial sequence number
  \<open>0xfffffffe\<close>: the SYN is accepted with \<open>rcv.nxt = 0xffffffff\<close> and \<open>rcv.wnd = 65535\<close>.
  Its next segment, the ACK that completes the handshake, has \<open>seg.seq = 0xffffffff\<close>,
  the very octet expected next and inside the window in sequence-space order; it is
  refused and answered with a bare ACK, and the PCB stays in SYN_RECEIVED. And with
  \<open>snd.una = 0xfffffff0\<close> and \<open>snd.nxt = 0x10\<close>, the acknowledgment \<open>seg.ack = 0x10\<close> of
  everything sent lies in \<open>(snd.una, snd.nxt]\<close> in sequence-space order and yet is
  taken for a duplicate: \<open>snd.una\<close> stays.
\<close>

theorem native_comparison_at_wraparound:
  "tcp_segment_arrives
     (world_with (tcp_pcb_zero\<lparr>state := LISTEN, local := scenario_local\<rparr>))
     \<lparr>seq = 0xfffffffe, ack = 0, len = 1, wnd = 4096, up = 0\<rparr>
     TCP_FLG_SYN [] 0 scenario_local scenario_foreign 7777 =
   Inr ((world_with (scenario_pcb
           \<lparr>state := SYN_RECEIVED, snd_una := 7777, rcv_nxt := 0xffffffff, irs := 0xfffffffe\<rparr>))
     \<lparr>sent :=
       [\<lparr>tx_seq = 7777, tx_ack = 0xffffffff, tx_flg = 0x12, tx_wnd = 65535, tx_data = [],
         tx_local = scenario_local, tx_foreign = scenario_foreign\<rparr>]\<rparr>) \<and>
   seq_le (rcv_nxt (scenario_pcb\<lparr>rcv_nxt := 0xffffffff\<rparr>)) 0xffffffff \<and>
   seq_lt 0xffffffff (rcv_nxt (scenario_pcb\<lparr>rcv_nxt := 0xffffffff\<rparr>) +
                      ucast (rcv_wnd (scenario_pcb\<lparr>rcv_nxt := 0xffffffff\<rparr>))) \<and>
   tcp_segment_arrives
     ((world_with (scenario_pcb
           \<lparr>state := SYN_RECEIVED, snd_una := 7777, rcv_nxt := 0xffffffff, irs := 0xfffffffe\<rparr>))
       \<lparr>sent := tx\<rparr>)
     \<lparr>seq = 0xffffffff, ack = 7778, len = 0, wnd = 4096, up = 0\<rparr>
     TCP_FLG_ACK [] 0 scenario_local scenario_foreign rnd =
   Inr ((world_with (scenario_pcb
           \<lparr>state := SYN_RECEIVED, snd_una := 7777, rcv_nxt := 0xffffffff, irs := 0xfffffffe\<rparr>))
     \<lparr>sent := tx @
       [\<lparr>tx_seq = 7778, tx_ack = 0xffffffff, tx_flg = TCP_FLG_ACK, tx_wnd = 65535,
         tx_data = [], tx_local = scenario_local, tx_foreign = scenario_foreign\<rparr>]\<rparr>) \<and>
   seq_lt (snd_una (scenario_pcb\<lparr>snd_una := 0xfffffff0, snd_nxt := 0x10\<rparr>)) 0x10 \<and>
   seq_le 0x10 (snd_nxt (scenario_pcb\<lparr>snd_una := 0xfffffff0, snd_nxt := 0x10\<rparr>)) \<and>
   tcp_segment_arrives (world_with (scenario_pcb\<lparr>snd_una := 0xfffffff0, snd_nxt := 0x10\<rparr>))
     \<lparr>seq = 1001, ack = 0x10, len = 0, wnd = 4096, up = 0\<rparr>
     TCP_FLG_ACK [] 0 scenario_local scenario_foreign rnd =
   Inr (world_with (scenario_pcb\<lparr>snd_una := 0xfffffff0, snd_nxt := 0x10\<rparr>))"
  by (simp add: tcp_eval_defs arrives_eval_defs seq_le_def seq_lt_def sizeof_buf_def)

theorem native_comparison_at_wraparound_witness:
  "tcp_segment_arrives (world_with (scenario_pcb\<lparr>snd_una := 0xfffffff0, snd_nxt := 0x10\<rparr>))
     \<lparr>seq = 1001, ack = 0x10, len = 0, wnd = 4096, up = 0\<rparr>
     TCP_FLG_ACK [] 0 scenario_local scenario_foreign 0 =
   Inr (world_with (scenario_pcb\<lparr>snd_una := 0xfffffff0, snd_nxt := 0x10\<rparr>))"
  using native_comparison_at_wraparound [where rnd = 0 and tx = "[]"] by simp

section \<open>TCP input: the claim\<close>

lemmas cksum_eval_defs =
  pseudo_hdr_def IP_PROTOCOL_TCP_def store16_def store32_def load32_def load16_def
  hton16_def byteswap16_def cksum16_def fold16.simps

lemmas tcp_input_eval_defs =
  sizeof_tcp_hdr_def IP_ADDR_BROADCAST_def tcp_hlen_def TCP_FLG_ISSET_def TCP_FLG_SYN_def
  TCP_FLG_FIN_def load32_def load16_def ntoh16_def ntoh32_def byteswap16_def byteswap32_def

lemma long_header_pseudo_sum:
  "NOT (cksum16 LITTLE_ENDIAN (pseudo_hdr LITTLE_ENDIAN 0x0500000A 0x0200000A 20) 0) = 0x2114"
  "NOT (cksum16 BIG_ENDIAN (pseudo_hdr BIG_ENDIAN 0x0A000005 0x0A000002 20) 0) = 0x1421"
  by (simp_all add: cksum_eval_defs)

lemma long_header_checksum:
  "cksum16 LITTLE_ENDIAN
     [0x9c, 0x40, 0x00, 0x50, 0, 0, 3, 0xe9, 0, 0, 0x1e, 0x62, 0xF0, 0x10, 0x10, 0x00,
      0x2C, 0xF2, 0, 0] 0x2114 = 0"
  "cksum16 BIG_ENDIAN
     [0x9c, 0x40, 0x00, 0x50, 0, 0, 3, 0xe9, 0, 0, 0x1e, 0x62, 0xF0, 0x10, 0x10, 0x00,
      0x2C, 0xF2, 0, 0] 0x1421 = 0"
  by (simp_all add: cksum_eval_defs)

text \<open>
  C10. The claim: whenever a buffer passes the length and checksum tests of
  \<open>tcp_input\<close>, the header length \<open>(off >> 4) << 2\<close> is at most the length, so that
  \<open>len - hlen\<close> does not wrap. The code never compares the two. The 20 bytes below have
  \<open>off = 0xF0\<close>, a header length of 60, and a valid checksum: \<open>tcp_segment_arrives\<close> is
  called with \<open>seg.len = 65496\<close>, with the length \<open>2^64 - 40\<close> and with a payload pointer
  past the end of the buffer, and on an ESTABLISHED connection the copy into the
  receive buffer overruns.
\<close>

theorem tcp_input_header_length_unchecked:
  "tcp_hlen 0xF0 = 60 \<and>
   tcp_input_args LITTLE_ENDIAN
     [0x9c, 0x40, 0x00, 0x50, 0, 0, 3, 0xe9, 0, 0, 0x1e, 0x62, 0xF0, 0x10, 0x10, 0x00,
      0x2C, 0xF2, 0, 0]
     0x0500000A 0x0200000A =
   Inr (\<lparr>seq = 1001, ack = 7778, len = 65496, wnd = 4096, up = 0\<rparr>, 0x10, [],
        0xFFFFFFFFFFFFFFD8, scenario_local, scenario_foreign) \<and>
   tcp_input_args BIG_ENDIAN
     [0x9c, 0x40, 0x00, 0x50, 0, 0, 3, 0xe9, 0, 0, 0x1e, 0x62, 0xF0, 0x10, 0x10, 0x00,
      0x2C, 0xF2, 0, 0]
     0x0A000005 0x0A000002 =
   Inr (\<lparr>seq = 1001, ack = 7778, len = 65496, wnd = 4096, up = 0\<rparr>, 0x10, [],
        0xFFFFFFFFFFFFFFD8,
        \<lparr>addr = 0x0A000002, port = 80\<rparr>, \<lparr>addr = 0x0A000005, port = 40000\<rparr>) \<and>
   tcp_input LITTLE_ENDIAN (world_with scenario_pcb)
     [0x9c, 0x40, 0x00, 0x50, 0, 0, 3, 0xe9, 0, 0, 0x1e, 0x62, 0xF0, 0x10, 0x10, 0x00,
      0x2C, 0xF2, 0, 0]
     0x0500000A 0x0200000A rnd =
   Inl BufferOverrun"
proof -
  have le: "tcp_input_args LITTLE_ENDIAN
     [0x9c, 0x40, 0x00, 0x50, 0, 0, 3, 0xe9, 0, 0, 0x1e, 0x62, 0xF0, 0x10, 0x10, 0x00,
      0x2C, 0xF2, 0, 0]
     0x0500000A 0x0200000A =
   Inr (\<lparr>seq = 1001, ack = 7778, len = 65496, wnd = 4096, up = 0\<rparr>, 0x10, [],
        0xFFFFFFFFFFFFFFD8, scenario_local, scenario_foreign)"
    unfolding tcp_input_args_def Let_def
    by (simp add: long_header_pseudo_sum long_header_checksum tcp_input_eval_defs
        scenario_local_def scenario_foreign_def)
  have be: "tcp_input_args BIG_ENDIAN
     [0x9c, 0x40, 0x00, 0x50, 0, 0, 3, 0xe9, 0, 0, 0x1e, 0x62, 0xF0, 0x10, 0x10, 0x00,
      0x2C, 0xF2, 0, 0]
     0x0A000005 0x0A000002 =
   Inr (\<lparr>seq = 1001, ack = 7778, len = 65496, wnd = 4096, up = 0\<rparr>, 0x10, [],
        0xFFFFFFFFFFFFFFD8,
        \<lparr>addr = 0x0A000002, port = 80\<rparr>, \<lparr>addr = 0x0A000005, port = 40000\<rparr>)"
    unfolding tcp_input_args_def Let_def
    by (simp add: long_header_pseudo_sum long_header_checksum tcp_input_eval_defs)
  have run: "tcp_segment_arrives (world_with scenario_pcb)
      \<lparr>seq = 1001, ack = 7778, len = 65496, wnd = 4096, up = 0\<rparr> 0x10 []
      0xFFFFFFFFFFFFFFD8 scenario_local scenario_foreign rnd = Inl BufferOverrun"
    by (simp add: tcp_eval_defs tcp_segment_arrives_def seq_acceptable_def Let_def
        arrives_ack_def ack_established_def arrives_text_def)
  have hl: "tcp_hlen 0xF0 = 60"
    by (simp add: tcp_hlen_def)
  show ?thesis
    by (simp add: tcp_input_def le be run hl)
qed

theorem tcp_input_header_length_unchecked_witness:
  "tcp_input LITTLE_ENDIAN (world_with scenario_pcb)
     [0x9c, 0x40, 0x00, 0x50, 0, 0, 3, 0xe9, 0, 0, 0x1e, 0x62, 0xF0, 0x10, 0x10, 0x00,
      0x2C, 0xF2, 0, 0]
     0x0500000A 0x0200000A 0 =
   Inl BufferOverrun"
  using tcp_input_header_length_unchecked [of 0] by simp

section \<open>TCP receive: the claim\<close>

lemma receive_window_no_wrap:
  fixes wn :: u16
  assumes "n \<le> sizeof_buf - unat wn"
  shows "unat (wn + word_of_nat n) = unat wn + n"
proof -
  have b: "unat wn < 65536"
    using unsigned_less [of wn] by simp
  have n: "n < 2 ^ LENGTH(16)"
    using assms by (simp add: sizeof_buf_def)
  have un: "unat (word_of_nat n :: u16) = n"
    by (rule of_nat_inverse [OF refl n])
  have "unat wn + unat (word_of_nat n :: u16) < 2 ^ LENGTH(16)"
    using assms b un by (simp add: sizeof_buf_def)
  then have "unat (wn + word_of_nat n) = unat wn + unat (word_of_nat n :: u16)"
    by (rule unat_add_lem [THEN iffD1])
  then show ?thesis
    using un by simp
qed

lemma receive_copy_result:
  assumes i: "i < length (pcbs w)"
    and buflen: "length (buf (pcbs w ! i)) = sizeof_buf"
    and remain: "remain = sizeof_buf - unat (rcv_wnd (pcbs w ! i))"
    and n: "n = min (unat sz) remain"
    and rc: "receive_copy w i out sz = (m, w1, out1)"
  shows "m = n"
    and "take n out1 = take n (buf (pcbs w ! i))"
    and "drop n out1 = drop n out"
    and "take (remain - n) (buf (pcbs w1 ! i)) = take (remain - n) (drop n (buf (pcbs w ! i)))"
    and "unat (rcv_wnd (pcbs w1 ! i)) = unat (rcv_wnd (pcbs w ! i)) + n"
    and "state (pcbs w1 ! i) = state (pcbs w ! i)"
proof -
  have nle: "n \<le> sizeof_buf - unat (rcv_wnd (pcbs w ! i))"
    using n remain by simp
  have wnd: "unat (rcv_wnd (pcbs w ! i) + word_of_nat n) = unat (rcv_wnd (pcbs w ! i)) + n"
    using nle by (rule receive_window_no_wrap)
  have len: "n \<le> length (buf (pcbs w ! i))" "remain \<le> length (buf (pcbs w ! i))"
    using nle remain buflen by simp_all
  have m: "m = n"
    and w1: "w1 = put_pcb w i ((pcbs w ! i)
            \<lparr>buf := take (remain - n) (drop n (buf (pcbs w ! i))) @
                    drop (remain - n) (buf (pcbs w ! i)),
             rcv_wnd := rcv_wnd (pcbs w ! i) + word_of_nat n,
             rx_taken := rx_taken (pcbs w ! i) + n\<rparr>)"
    and out1: "out1 = take n (buf (pcbs w ! i)) @ drop n out"
    using rc unfolding receive_copy_def Let_def remain [symmetric] n [symmetric]
    by auto
  show "m = n" by (rule m)
  show "take n out1 = take n (buf (pcbs w ! i))"
    using len by (simp add: out1)
  show "drop n out1 = drop n out"
    using len by (simp add: out1)
  show "take (remain - n) (buf (pcbs w1 ! i)) = take (remain - n) (drop n (buf (pcbs w ! i)))"
    using len i n by (simp add: w1)
  show "unat (rcv_wnd (pcbs w1 ! i)) = unat (rcv_wnd (pcbs w ! i)) + n"
    using i wnd by (simp add: w1)
  show "state (pcbs w1 ! i) = state (pcbs w ! i)"
    using i by (simp add: w1)
qed

text \<open>
  C5. \<open>tcp_receive\<close> on a valid handle of a PCB in ESTABLISHED, with
  \<open>remain = sizeof(buf) - rcv.wnd\<close>. With \<open>remain > 0\<close> it returns \<open>min(size, remain)\<close>
  without sleeping, that many bytes from the head of \<open>buf\<close> are in the caller's buffer
  and the rest of it is untouched, the bytes that remain buffered are at the front of
  \<open>buf\<close>, and \<open>rcv.wnd\<close> has grown by the amount returned. With \<open>remain = 0\<close> it sleeps: it
  is still asleep while no return of \<open>sched_sleep\<close> comes, it starts again from \<open>RETRY\<close>
  in the state it finds when woken, and it fails with \<open>EINTR\<close> when interrupted,
  leaving the state it finds, PCB and buffer included, as it is.
\<close>

theorem tcp_receive_established:
  assumes get: "tcp_pcb_get w ident = Some i"
    and wf: "length (pcbs w) = TCP_PCB_SIZE"
    and st: "state (pcbs w ! i) = ESTABLISHED"
    and buflen: "length (buf (pcbs w ! i)) = sizeof_buf"
    and remain: "remain = sizeof_buf - unat (rcv_wnd (pcbs w ! i))"
    and n: "n = min (unat sz) remain"
  shows
    "(0 < remain \<longrightarrow>
        (case tcp_receive w ident out sz script of
           Some (Inr m, w1, out1) \<Rightarrow>
             m = n \<and>
             take n out1 = take n (buf (pcbs w ! i)) \<and>
             drop n out1 = drop n out \<and>
             take (remain - n) (buf (pcbs w1 ! i)) =
               take (remain - n) (drop n (buf (pcbs w ! i))) \<and>
             unat (rcv_wnd (pcbs w1 ! i)) = unat (rcv_wnd (pcbs w ! i)) + n \<and>
             state (pcbs w1 ! i) = ESTABLISHED
         | _ \<Rightarrow> False)) \<and>
     (remain = 0 \<longrightarrow>
        tcp_receive w ident out sz [] = None \<and>
        tcp_receive w ident out sz (Woken w' # rest) = receive_retry i out sz w' rest \<and>
        tcp_receive w ident out sz (Interrupted w' # rest) = Some (Inl EINTR, w', out))"
proof (intro conjI impI)
  have i: "i < length (pcbs w)"
    using get wf by (auto simp add: tcp_pcb_get_def split: if_splits)
  assume pos: "0 < remain"
  obtain m w1 out1 where rc: "receive_copy w i out sz = (m, w1, out1)"
    by (cases "receive_copy w i out sz") auto
  have run: "tcp_receive w ident out sz script = Some (Inr m, w1, out1)"
    using get st pos remain rc by (simp add: tcp_receive_def receive_retry.simps [of i out sz w])
  show "case tcp_receive w ident out sz script of
           Some (Inr m, w1, out1) \<Rightarrow>
             m = n \<and>
             take n out1 = take n (buf (pcbs w ! i)) \<and>
             drop n out1 = drop n out \<and>
             take (remain - n) (buf (pcbs w1 ! i)) =
               take (remain - n) (drop n (buf (pcbs w ! i))) \<and>
             unat (rcv_wnd (pcbs w1 ! i)) = unat (rcv_wnd (pcbs w ! i)) + n \<and>
             state (pcbs w1 ! i) = ESTABLISHED
         | _ \<Rightarrow> False"
    using receive_copy_result [OF i buflen remain n rc] st
    by (simp add: run)
next
  assume z: "remain = 0"
  show "tcp_receive w ident out sz [] = None"
    using get st z remain by (simp add: tcp_receive_def receive_retry.simps [of i out sz w])
  show "tcp_receive w ident out sz (Woken w' # rest) = receive_retry i out sz w' rest"
    using get st z remain by (simp add: tcp_receive_def receive_retry.simps [of i out sz w])
  show "tcp_receive w ident out sz (Interrupted w' # rest) = Some (Inl EINTR, w', out)"
    using get st z remain by (simp add: tcp_receive_def receive_retry.simps [of i out sz w])
qed

theorem tcp_receive_established_witness:
  "(case tcp_receive
      (world_with (scenario_pcb\<lparr>buf := [1, 2, 3] @ replicate 65532 0, rcv_wnd := 65532\<rparr>))
      0 [9, 9, 9, 9] 2 [] of
      Some (Inr m, w1, out1) \<Rightarrow>
        m = 2 \<and> take 2 out1 = [1, 2] \<and> drop 2 out1 = [9, 9] \<and>
        take 1 (buf (pcbs w1 ! 0)) = [3] \<and> unat (rcv_wnd (pcbs w1 ! 0)) = 65534 \<and>
        state (pcbs w1 ! 0) = ESTABLISHED
    | _ \<Rightarrow> False) \<and>
   tcp_receive (world_with scenario_pcb) 0 [9, 9, 9, 9] 2
     [Interrupted (world_with scenario_pcb)] =
   Some (Inl EINTR, world_with scenario_pcb, [9, 9, 9, 9])"
proof -
  let ?p = "scenario_pcb\<lparr>buf := [1, 2, 3] @ replicate 65532 0, rcv_wnd := 65532\<rparr>"
  have g: "tcp_pcb_get (world_with ?p) 0 = Some 0"
    by (rule world_with_get0) (simp add: scenario_pcb_def)
  have st: "state (pcbs (world_with ?p) ! 0) = ESTABLISHED"
    by (simp add: world_with_slot0 scenario_pcb_def)
  have bl: "length (buf (pcbs (world_with ?p) ! 0)) = sizeof_buf"
    by (simp add: world_with_slot0 sizeof_buf_def)
  have rm: "3 = sizeof_buf - unat (rcv_wnd (pcbs (world_with ?p) ! 0))"
    by (simp add: world_with_slot0 sizeof_buf_def)
  have n: "2 = min (unat (2 :: size_t)) 3"
    by simp
  have a: "case tcp_receive (world_with ?p) 0 [9, 9, 9, 9] 2 [] of
      Some (Inr m, w1, out1) \<Rightarrow>
        m = 2 \<and>
        take 2 out1 = take 2 (buf (pcbs (world_with ?p) ! 0)) \<and>
        drop 2 out1 = drop 2 [9, 9, 9, 9] \<and>
        take (3 - 2) (buf (pcbs w1 ! 0)) =
          take (3 - 2) (drop 2 (buf (pcbs (world_with ?p) ! 0))) \<and>
        unat (rcv_wnd (pcbs w1 ! 0)) = unat (rcv_wnd (pcbs (world_with ?p) ! 0)) + 2 \<and>
        state (pcbs w1 ! 0) = ESTABLISHED
    | _ \<Rightarrow> False"
    by (rule tcp_receive_established
        [OF g world_with_slot0(2) st bl rm n, THEN conjunct1, rule_format]) simp
  have g0: "tcp_pcb_get (world_with scenario_pcb) 0 = Some 0"
    by (rule world_with_get0) (simp add: scenario_pcb_def)
  have st0: "state (pcbs (world_with scenario_pcb) ! 0) = ESTABLISHED"
    by (simp add: world_with_slot0 scenario_pcb_def)
  have bl0: "length (buf (pcbs (world_with scenario_pcb) ! 0)) = sizeof_buf"
    by (simp add: world_with_slot0 scenario_pcb_def tcp_pcb_zero_def buf_zero_def)
  have rm0: "0 = sizeof_buf - unat (rcv_wnd (pcbs (world_with scenario_pcb) ! 0))"
    by (simp add: world_with_slot0 scenario_pcb_def sizeof_buf_def)
  have n0: "0 = min (unat (2 :: size_t)) 0"
    by simp
  have b: "tcp_receive (world_with scenario_pcb) 0 [9, 9, 9, 9] 2
      [Interrupted (world_with scenario_pcb)] =
    Some (Inl EINTR, world_with scenario_pcb, [9, 9, 9, 9])"
    using tcp_receive_established [OF g0 world_with_slot0(2) st0 bl0 rm0 n0]
    by simp
  have vals: "take 2 (buf (pcbs (world_with ?p) ! 0)) = [1, 2]"
    "take (3 - 2) (drop 2 (buf (pcbs (world_with ?p) ! 0))) = [3]"
    "unat (rcv_wnd (pcbs (world_with ?p) ! 0)) + 2 = 65534"
    by (simp_all add: world_with_slot0)
  show ?thesis
    using a b unfolding vals
    by (auto split: option.splits sum.splits prod.splits)
qed

section \<open>The receive window over executions: the claim\<close>

lemma rcv_inv_zero: "rcv_inv tcp_pcb_zero"
  by (simp add: rcv_inv_def tcp_pcb_zero_def pending_def)

lemma all_inv_put:
  assumes "list_all rcv_inv ps"
    and "i < length ps \<Longrightarrow> rcv_inv pcb"
  shows "list_all rcv_inv (ps[i := pcb])"
proof (cases "i < length ps")
  case True
  then have "rcv_inv pcb"
    by (rule assms(2))
  moreover have "set (ps[i := pcb]) \<subseteq> insert pcb (set ps)"
    by (rule set_update_subset_insert)
  ultimately show ?thesis
    using assms(1) by (auto simp add: list_all_iff)
next
  case False
  then show ?thesis
    using assms(1) by (simp add: list_update_beyond)
qed

lemma all_inv_nth:
  "list_all rcv_inv (pcbs w) \<Longrightarrow> i < length (pcbs w) \<Longrightarrow> rcv_inv (pcbs w ! i)"
  by (simp add: list_all_length)

lemma first_free_state:
  "first_free ps k = Some i \<Longrightarrow> k \<le> i \<and> i < k + length ps \<and> state (ps ! (i - k)) = FREE"
proof (induction ps arbitrary: k)
  case Nil
  then show ?case by simp
next
  case (Cons p ps)
  show ?case
  proof (cases "state p = FREE")
    case True
    then show ?thesis using Cons.prems by simp
  next
    case False
    then have "first_free ps (Suc k) = Some i"
      using Cons.prems by simp
    then have ih: "Suc k \<le> i \<and> i < Suc k + length ps \<and> state (ps ! (i - Suc k)) = FREE"
      by (rule Cons.IH)
    then have "i - k = Suc (i - Suc k)"
      by auto
    then show ?thesis
      using ih by simp
  qed
qed

lemma open_listen_inv:
  assumes inv: "list_all rcv_inv (pcbs w)"
    and op: "tcp_open_listen w lcl frn = (r, w1)"
  shows "list_all rcv_inv (pcbs w1)"
proof (cases "first_free (pcbs w) 0")
  case None
  then show ?thesis
    using inv op by (simp add: tcp_open_listen_def tcp_pcb_alloc_def)
next
  case (Some i)
  then have i: "i < length (pcbs w)" and fr: "state (pcbs w ! i) = FREE"
    using first_free_state [of "pcbs w" 0 i] by simp_all
  have z: "rcv_inv (pcbs w ! i)"
    using inv i by (rule all_inv_nth)
  define pcb2 where "pcb2 =
    (case frn of None \<Rightarrow> (pcbs w ! i)\<lparr>state := CLOSED, local := lcl\<rparr>
     | Some f \<Rightarrow> (pcbs w ! i)\<lparr>state := CLOSED, local := lcl, foreign := f\<rparr>)\<lparr>state := LISTEN\<rparr>"
  have p2: "rcv_inv pcb2"
    using z fr by (simp add: pcb2_def rcv_inv_def pending_def split: option.splits)
  have "w1 = put_pcb (put_pcb w i ((pcbs w ! i)\<lparr>state := CLOSED\<rparr>)) i pcb2"
    using op Some i by (simp add: tcp_open_listen_def tcp_pcb_alloc_def Let_def pcb2_def
        split: option.splits)
  then show ?thesis
    using inv p2 by (simp add: all_inv_put)
qed

lemma listen_inv:
  assumes inv: "list_all rcv_inv (pcbs w)"
    and i: "i < length (pcbs w)"
    and st: "state (pcbs w ! i) = LISTEN"
  shows "list_all rcv_inv (pcbs (arrives_listen w i seg flags lcl frn rnd))"
proof -
  have z: "rcv_inv (pcbs w ! i)"
    using inv i by (rule all_inv_nth)
  have "rcv_inv ((pcbs w ! i)
      \<lparr>local := lcl, foreign := frn, rcv_wnd := word_of_nat sizeof_buf,
       rcv_nxt := seq seg + 1, irs := seq seg, iss := rnd, snd_nxt := rnd + 1,
       snd_una := rnd, state := SYN_RECEIVED\<rparr>)"
    using z st by (simp add: rcv_inv_def pending_def sizeof_buf_def)
  then show ?thesis
    using inv i
    by (auto simp add: arrives_listen_def Let_def intro: all_inv_put)
qed

lemma text_window_shrinks:
  fixes wn :: u16 and n :: size_t
  assumes "\<not> unat wn < unat n"
  shows "unat (wn - ucast n) = unat wn - unat n"
proof -
  have b: "unat wn < 2 ^ LENGTH(16)"
    by (rule unsigned_less)
  then have "unat n < 2 ^ LENGTH(16)"
    using assms by simp
  then have u: "unat (ucast n :: u16) = unat n"
    by (simp add: unsigned_ucast_eq take_bit_nat_eq_self)
  then have "ucast n \<le> wn"
    using assms by (simp add: word_le_nat_alt)
  then have "unat (wn - ucast n) = unat wn - unat (ucast n :: u16)"
    by (rule unat_sub)
  then show ?thesis
    using u by simp
qed

lemma text_inv:
  assumes inv: "list_all rcv_inv (pcbs w)"
    and i: "i < length (pcbs w)"
    and run: "arrives_text w i seg data n = Inr w1"
  shows "list_all rcv_inv (pcbs w1)"
proof (cases "state (pcbs w ! i) = ESTABLISHED \<and> n \<noteq> 0")
  case False
  then have "w1 = w"
    using run by (auto simp add: arrives_text_def Let_def split: if_splits)
  then show ?thesis
    using inv by simp
next
  case True
  then have fits: "\<not> unat (rcv_wnd (pcbs w ! i)) < unat n"
    using run by (auto simp add: arrives_text_def Let_def split: if_splits)
  have z: "rcv_inv (pcbs w ! i)"
    using inv i by (rule all_inv_nth)
  define pcb1 where "pcb1 = (pcbs w ! i)
     \<lparr>buf := take (sizeof_buf - unat (rcv_wnd (pcbs w ! i))) (buf (pcbs w ! i)) @
             take (unat n) data @
             drop (sizeof_buf - unat (rcv_wnd (pcbs w ! i)) + unat n) (buf (pcbs w ! i)),
      rcv_nxt := seq seg + ucast (len seg),
      rcv_wnd := rcv_wnd (pcbs w ! i) - ucast n,
      rx_stored := rx_stored (pcbs w ! i) + unat n\<rparr>"
  have p1: "rcv_inv pcb1"
    using z True fits text_window_shrinks [OF fits]
    by (auto simp add: pcb1_def rcv_inv_def pending_def)
  have "pcbs w1 = pcbs (put_pcb w i pcb1)"
    using run True fits
    by (auto simp add: arrives_text_def Let_def pcb1_def split: if_splits)
  then show ?thesis
    using inv p1 by (simp add: all_inv_put)
qed

lemma snd_fields_inv:
  "rcv_inv pcb \<Longrightarrow> rcv_inv (pcb\<lparr>snd_una := a\<rparr>)"
  "rcv_inv pcb \<Longrightarrow> rcv_inv (pcb\<lparr>snd_una := a, snd_wnd := b, snd_wl1 := c, snd_wl2 := d\<rparr>)"
  "rcv_inv pcb \<Longrightarrow> rcv_inv (pcb\<lparr>snd_nxt := a\<rparr>)"
  "rcv_inv pcb \<Longrightarrow> rcv_inv (pcb\<lparr>state := CLOSED\<rparr>)"
  by (auto simp add: rcv_inv_def pending_def)

lemma ack_established_inv:
  assumes inv: "list_all rcv_inv (pcbs w)"
    and i: "i < length (pcbs w)"
    and run: "ack_established w i seg data n = Inr w1"
  shows "list_all rcv_inv (pcbs w1)"
proof -
  have z: "rcv_inv (pcbs w ! i)"
    using inv i by (rule all_inv_nth)
  have upd: "list_all rcv_inv (pcbs w2)"
    if "arrives_text (put_pcb w i p) i seg data n = Inr w2" and "rcv_inv p" for p w2
  proof -
    have "list_all rcv_inv (pcbs (put_pcb w i p))"
      using inv that(2) by (simp add: all_inv_put)
    moreover have "i < length (pcbs (put_pcb w i p))"
      using i by simp
    ultimately show ?thesis
      using that(1) by (rule text_inv)
  qed
  show ?thesis
    using run inv i z
    by (auto simp add: ack_established_def Let_def snd_fields_inv
        split: if_splits intro: text_inv upd)
qed


lemma arrives_ack_inv:
  assumes inv: "list_all rcv_inv (pcbs w)"
    and i: "i < length (pcbs w)"
    and run: "arrives_ack w i seg data n lcl frn = Inr w1"
  shows "list_all rcv_inv (pcbs w1)"
proof (cases "state (pcbs w ! i) = SYN_RECEIVED")
  case True
  have z: "rcv_inv (pcbs w ! i)"
    using inv i by (rule all_inv_nth)
  have e: "rcv_inv ((pcbs w ! i)\<lparr>state := ESTABLISHED\<rparr>)"
    using z True by (simp add: rcv_inv_def pending_def)
  show ?thesis
  proof (cases "snd_una (pcbs w ! i) \<le> ack seg \<and> ack seg \<le> snd_nxt (pcbs w ! i)")
    case valid: True
    let ?w = "sched_wakeup (put_pcb w i ((pcbs w ! i)\<lparr>state := ESTABLISHED\<rparr>)) i"
    have a: "ack_established ?w i seg data n = Inr w1"
      using run True valid by (simp add: arrives_ack_def Let_def)
    have b: "list_all rcv_inv (pcbs ?w)"
      using inv e by (simp add: all_inv_put)
    have c: "i < length (pcbs ?w)"
      using i by simp
    show ?thesis
      by (rule ack_established_inv [OF b c a])
  next
    case False
    then have "pcbs w1 = pcbs w"
      using run True by (auto simp add: arrives_ack_def Let_def)
    then show ?thesis
      using inv by simp
  qed
next
  case False
  then show ?thesis
    using run inv i
    by (auto simp add: arrives_ack_def Let_def split: if_splits
        intro: ack_established_inv text_inv)
qed

lemma segment_arrives_inv:
  assumes inv: "list_all rcv_inv (pcbs w)"
    and run: "tcp_segment_arrives w seg flags data n lcl frn rnd = Inr w1"
  shows "list_all rcv_inv (pcbs w1)"
proof (cases "tcp_pcb_select w lcl (Some frn)")
  case None
  then have "pcbs w1 = pcbs w"
    using run by (auto simp add: tcp_segment_arrives_def arrives_closed_def)
  then show ?thesis
    using inv by simp
next
  case (Some i)
  then have i: "i < length (pcbs w)"
    by (rule tcp_pcb_select_bound)
  show ?thesis
    using run Some inv i
    by (auto simp add: tcp_segment_arrives_def arrives_closed_def Let_def
        split: if_splits intro: listen_inv arrives_ack_inv)
qed

lemma receive_inv:
  assumes inv: "list_all rcv_inv (pcbs w)"
    and run: "tcp_receive w ident out sz [] = Some (r, w1, out1)"
  shows "list_all rcv_inv (pcbs w1)"
proof (cases "tcp_pcb_get w ident")
  case None
  then show ?thesis
    using run inv by (simp add: tcp_receive_def)
next
  case (Some i)
  show ?thesis
  proof (cases "state (pcbs w ! i) = ESTABLISHED \<and>
      sizeof_buf - unat (rcv_wnd (pcbs w ! i)) \<noteq> 0")
    case False
    then have "w1 = w"
      using run Some
      by (auto simp add: tcp_receive_def receive_retry.simps [of i out sz w] split: if_splits)
    then show ?thesis
      using inv by simp
  next
    case True
    define k where "k = min (unat sz) (sizeof_buf - unat (rcv_wnd (pcbs w ! i)))"
    define pcb1 where "pcb1 = (pcbs w ! i)
      \<lparr>buf := take (sizeof_buf - unat (rcv_wnd (pcbs w ! i)) - k) (drop k (buf (pcbs w ! i))) @
              drop (sizeof_buf - unat (rcv_wnd (pcbs w ! i)) - k) (buf (pcbs w ! i)),
       rcv_wnd := rcv_wnd (pcbs w ! i) + word_of_nat k,
       rx_taken := rx_taken (pcbs w ! i) + k\<rparr>"
    have w1: "w1 = put_pcb w i pcb1"
      using run Some True
      by (auto simp add: tcp_receive_def receive_retry.simps [of i out sz w] receive_copy_def
          Let_def pcb1_def k_def)
    have kle: "k \<le> sizeof_buf - unat (rcv_wnd (pcbs w ! i))"
      by (simp add: k_def)
    have wn: "unat (rcv_wnd (pcbs w ! i) + word_of_nat k) = unat (rcv_wnd (pcbs w ! i)) + k"
      using kle by (rule receive_window_no_wrap)
    have "rcv_inv pcb1" if "i < length (pcbs w)"
    proof -
      have "rcv_inv (pcbs w ! i)"
        using inv that by (rule all_inv_nth)
      then show ?thesis
        using True kle wn by (auto simp add: rcv_inv_def pending_def pcb1_def)
    qed
    then show ?thesis
      using inv by (simp add: w1 all_inv_put)
  qed
qed

lemma scenario_open:
  "tcp_open_listen tcp_world_init scenario_local None =
     (Inr 0, world_with (tcp_pcb_zero\<lparr>state := LISTEN, local := scenario_local\<rparr>))"
  by (simp add: tcp_open_listen_def tcp_pcb_alloc_def tcp_eval_defs)

lemma scenario_syn:
  "tcp_segment_arrives
     (world_with (tcp_pcb_zero\<lparr>state := LISTEN, local := scenario_local\<rparr>))
     \<lparr>seq = 1000, ack = 0, len = 1, wnd = 4096, up = 0\<rparr>
     TCP_FLG_SYN [] 0 scenario_local scenario_foreign 7777 =
   Inr ((world_with (scenario_pcb\<lparr>snd_una := 7777, state := SYN_RECEIVED\<rparr>))
     \<lparr>sent :=
       [\<lparr>tx_seq = 7777, tx_ack = 1001, tx_flg = 0x12, tx_wnd = 65535, tx_data = [],
         tx_local = scenario_local, tx_foreign = scenario_foreign\<rparr>]\<rparr>)"
  by (simp add: arrives_eval_defs tcp_eval_defs sizeof_buf_def)

lemma scenario_ack:
  "tcp_segment_arrives
     ((world_with (scenario_pcb\<lparr>snd_una := 7777, state := SYN_RECEIVED\<rparr>))
       \<lparr>sent := tx\<rparr>)
     \<lparr>seq = 1001, ack = 7778, len = 0, wnd = 4096, up = 0\<rparr>
     TCP_FLG_ACK [] 0 scenario_local scenario_foreign rnd =
   Inr ((world_with (scenario_pcb\<lparr>snd_wnd := 4096, snd_wl1 := 1001, snd_wl2 := 7778\<rparr>))
     \<lparr>sent := tx, woken := [0]\<rparr>)"
  by (simp add: arrives_eval_defs tcp_eval_defs)

lemma scenario_data:
  "tcp_segment_arrives
     ((world_with (scenario_pcb\<lparr>snd_wnd := 4096, snd_wl1 := 1001, snd_wl2 := 7778\<rparr>))
       \<lparr>sent := tx, woken := [0]\<rparr>)
     \<lparr>seq = 1001, ack = 7778, len = 3, wnd = 4096, up = 0\<rparr>
     (TCP_FLG_ACK OR TCP_FLG_PSH) [1, 2, 3] 3 scenario_local scenario_foreign rnd =
   Inr ((world_with (scenario_pcb
           \<lparr>snd_wnd := 4096, snd_wl1 := 1001, snd_wl2 := 7778,
            buf := [1, 2, 3] @ drop 3 buf_zero, rcv_nxt := 1004, rcv_wnd := 65532,
            rx_stored := 3\<rparr>))
     \<lparr>sent := tx @
        [\<lparr>tx_seq = 7778, tx_ack = 1004, tx_flg = TCP_FLG_ACK, tx_wnd = 65532, tx_data = [],
          tx_local = scenario_local, tx_foreign = scenario_foreign\<rparr>],
      woken := [0, 0]\<rparr>)"
  by (simp add: arrives_eval_defs tcp_eval_defs sizeof_buf_def)


text \<open>
  C8. The claim: at every point of every execution, every PCB that is not FREE has
  \<open>rcv.wnd\<close> plus the bytes appended and not yet consumed equal to 65535, already in
  the CLOSED and LISTEN states that allocation and passive open create. That fails
  there: those states have \<open>rcv.wnd = 0\<close> and nothing buffered (the counterexample
  below), and \<open>rcv.wnd\<close> becomes 65535 only when a SYN is accepted. What holds, at every
  point of every execution in which no arrival overruns the buffer: a PCB in
  SYN_RECEIVED or ESTABLISHED has \<open>rcv.wnd\<close> plus the pending bytes equal to 65535, and a
  PCB in LISTEN has \<open>rcv.wnd = 0\<close> and nothing pending.
\<close>

theorem reachable_rcv_window:
  assumes "reachable w"
    and "pcb \<in> set (pcbs w)"
  shows "(state pcb = SYN_RECEIVED \<or> state pcb = ESTABLISHED \<longrightarrow>
            rx_taken pcb \<le> rx_stored pcb \<and> unat (rcv_wnd pcb) + pending pcb = sizeof_buf) \<and>
         (state pcb = LISTEN \<longrightarrow> rcv_wnd pcb = 0 \<and> pending pcb = 0)"
proof -
  have "list_all rcv_inv (pcbs w)"
    using assms(1)
  proof (induction rule: reachable.induct)
    case init
    then show ?case
      by (simp add: tcp_world_init_def rcv_inv_zero list_all_iff)
  next
    case (opened w lcl frn r w1)
    then show ?case
      by (auto intro: open_listen_inv)
  next
    case (arrived w seg flags data n lcl frn rnd w1)
    then show ?case
      by (auto intro: segment_arrives_inv)
  next
    case (received w ident out sz r w1 out1)
    then show ?case
      by (auto intro: receive_inv)
  next
    case (released w i waiting)
    then show ?case
      by (simp add: tcp_pcb_release_def all_inv_put rcv_inv_zero)
  next
    case (closed w i)
    then show ?case
      by (auto intro!: all_inv_put snd_fields_inv all_inv_nth)
  next
    case (sent_data w i x)
    then show ?case
      by (auto intro!: all_inv_put snd_fields_inv all_inv_nth)
  next
    case (emitted w i flg data n)
    then show ?case
      by simp
  qed
  then have "rcv_inv pcb"
    using assms(2) by (simp add: list_all_iff)
  then show ?thesis
    by (auto simp add: rcv_inv_def pending_def)
qed


theorem reachable_rcv_window_witness:
  "unat (65532 :: u16) + pending (scenario_pcb
      \<lparr>snd_wnd := 4096, snd_wl1 := 1001, snd_wl2 := 7778,
       buf := [1, 2, 3] @ drop 3 buf_zero, rcv_nxt := 1004, rcv_wnd := 65532,
       rx_stored := 3\<rparr>) = sizeof_buf"
proof -
  let ?p = "scenario_pcb
      \<lparr>snd_wnd := 4096, snd_wl1 := 1001, snd_wl2 := 7778,
       buf := [1, 2, 3] @ drop 3 buf_zero, rcv_nxt := 1004, rcv_wnd := 65532,
       rx_stored := 3\<rparr>"
  have r1: "reachable (world_with (tcp_pcb_zero\<lparr>state := LISTEN, local := scenario_local\<rparr>))"
    using reachable.init scenario_open by (rule reachable.opened)
  have r2: "reachable ((world_with (scenario_pcb\<lparr>snd_una := 7777, state := SYN_RECEIVED\<rparr>))
     \<lparr>sent :=
       [\<lparr>tx_seq = 7777, tx_ack = 1001, tx_flg = 0x12, tx_wnd = 65535, tx_data = [],
         tx_local = scenario_local, tx_foreign = scenario_foreign\<rparr>]\<rparr>)"
    using r1 scenario_syn by (rule reachable.arrived)
  have r3: "reachable
     ((world_with (scenario_pcb\<lparr>snd_wnd := 4096, snd_wl1 := 1001, snd_wl2 := 7778\<rparr>))
     \<lparr>sent :=
       [\<lparr>tx_seq = 7777, tx_ack = 1001, tx_flg = 0x12, tx_wnd = 65535, tx_data = [],
         tx_local = scenario_local, tx_foreign = scenario_foreign\<rparr>],
      woken := [0]\<rparr>)"
    using r2 scenario_ack [where rnd = 0] by (rule reachable.arrived)
  have r4: "reachable ((world_with ?p)
     \<lparr>sent :=
       [\<lparr>tx_seq = 7777, tx_ack = 1001, tx_flg = 0x12, tx_wnd = 65535, tx_data = [],
         tx_local = scenario_local, tx_foreign = scenario_foreign\<rparr>] @
       [\<lparr>tx_seq = 7778, tx_ack = 1004, tx_flg = TCP_FLG_ACK, tx_wnd = 65532, tx_data = [],
          tx_local = scenario_local, tx_foreign = scenario_foreign\<rparr>],
      woken := [0, 0]\<rparr>)"
    using r3 scenario_data [where rnd = 0] by (rule reachable.arrived)
  have m: "?p \<in> set (pcbs ((world_with ?p)
     \<lparr>sent :=
       [\<lparr>tx_seq = 7777, tx_ack = 1001, tx_flg = 0x12, tx_wnd = 65535, tx_data = [],
         tx_local = scenario_local, tx_foreign = scenario_foreign\<rparr>] @
       [\<lparr>tx_seq = 7778, tx_ack = 1004, tx_flg = TCP_FLG_ACK, tx_wnd = 65532, tx_data = [],
          tx_local = scenario_local, tx_foreign = scenario_foreign\<rparr>],
      woken := [0, 0]\<rparr>))"
    by (simp add: world_with_def tcp_world_init_def TCP_PCB_SIZE_def replicate16)
  have st: "state ?p = ESTABLISHED" and wn: "rcv_wnd ?p = 65532"
    by (simp_all add: scenario_pcb_def)
  show ?thesis
    using reachable_rcv_window [OF r4 m] st wn by simp
qed

theorem rcv_window_before_syn_counterexample:
  "reachable (world_with (tcp_pcb_zero\<lparr>state := LISTEN, local := scenario_local\<rparr>)) \<and>
   \<not> (\<forall>pcb \<in> set (pcbs (world_with (tcp_pcb_zero\<lparr>state := LISTEN, local := scenario_local\<rparr>))).
        state pcb \<noteq> FREE \<longrightarrow> unat (rcv_wnd pcb) + pending pcb = sizeof_buf) \<and>
   fst (tcp_pcb_alloc tcp_world_init) = Some 0 \<and>
   \<not> (state (pcbs (snd (tcp_pcb_alloc tcp_world_init)) ! 0) \<noteq> FREE \<longrightarrow>
        unat (rcv_wnd (pcbs (snd (tcp_pcb_alloc tcp_world_init)) ! 0)) +
        pending (pcbs (snd (tcp_pcb_alloc tcp_world_init)) ! 0) = sizeof_buf)"
proof (intro conjI)
  show "reachable (world_with (tcp_pcb_zero\<lparr>state := LISTEN, local := scenario_local\<rparr>))"
    using reachable.init scenario_open by (rule reachable.opened)
  show "\<not> (\<forall>pcb \<in> set (pcbs (world_with (tcp_pcb_zero\<lparr>state := LISTEN, local := scenario_local\<rparr>))).
        state pcb \<noteq> FREE \<longrightarrow> unat (rcv_wnd pcb) + pending pcb = sizeof_buf)"
    by (simp add: tcp_eval_defs pending_def sizeof_buf_def)
  show "fst (tcp_pcb_alloc tcp_world_init) = Some 0"
    by (simp add: tcp_pcb_alloc_def tcp_eval_defs)
  show "\<not> (state (pcbs (snd (tcp_pcb_alloc tcp_world_init)) ! 0) \<noteq> FREE \<longrightarrow>
        unat (rcv_wnd (pcbs (snd (tcp_pcb_alloc tcp_world_init)) ! 0)) +
        pending (pcbs (snd (tcp_pcb_alloc tcp_world_init)) ! 0) = sizeof_buf)"
    by (simp add: tcp_pcb_alloc_def tcp_eval_defs pending_def sizeof_buf_def)
qed

section \<open>Address parsing and printing: the claim\<close>

subsection \<open>Characters\<close>

lemma char_classes:
  "\<not> isspace CHR ''+''" "\<not> isspace CHR ''-''" "\<not> isspace CHR ''.''"
  "\<not> isdigit CHR ''+''" "\<not> isdigit CHR ''-''" "\<not> isdigit CHR ''.''"
  by (simp_all add: isspace_def isdigit_def)

lemma isdigit_not_isspace: "isdigit c \<Longrightarrow> \<not> isspace c"
  by (auto simp add: isspace_def isdigit_def)

subsection \<open>The fields of a string\<close>

lemma split_dots_not_Nil [simp]: "split_dots s \<noteq> []"
  by (induction s) simp_all

lemma split_dots_append:
  "CHR ''.'' \<notin> set f \<Longrightarrow>
   split_dots (f @ r) = (f @ hd (split_dots r)) # tl (split_dots r)"
  by (induction f) auto

lemma split_dots_field:
  "CHR ''.'' \<notin> set f \<Longrightarrow> split_dots (f @ CHR ''.'' # r) = f # split_dots r"
  by (simp add: split_dots_append)

lemma split_dots_single:
  "CHR ''.'' \<notin> set f \<Longrightarrow> split_dots f = [f]"
  using split_dots_append [of f "[]"] by simp

lemma split_dots_hd_no_dot: "CHR ''.'' \<notin> set (hd (split_dots s))"
  by (induction s) simp_all

lemma split_dots_decompose:
  "(tl (split_dots s) = [] \<longrightarrow> s = hd (split_dots s)) \<and>
   (tl (split_dots s) \<noteq> [] \<longrightarrow>
      (\<exists>r. s = hd (split_dots s) @ CHR ''.'' # r \<and> split_dots r = tl (split_dots s)))"
proof (induction s)
  case Nil
  then show ?case by simp
next
  case (Cons c cs)
  show ?case
  proof (cases "c = CHR ''.''")
    case True
    then show ?thesis by simp
  next
    case False
    then show ?thesis
      using Cons.IH by auto
  qed
qed


subsection \<open>\<open>strtol\<close> on one field\<close>

lemma strtol_unfold:
  "strtol sp =
     (if takeWhile isdigit (field_digits sp) = [] then (0, sp)
      else (max LONG_MIN (min LONG_MAX
              (if field_neg sp then - int (digits_val (takeWhile isdigit (field_digits sp)))
               else int (digits_val (takeWhile isdigit (field_digits sp))))),
            dropWhile isdigit (field_digits sp)))"
  by (simp add: strtol_def field_digits_def field_neg_def Let_def)

lemma field_append:
  assumes "field_digits f \<noteq> []"
  shows "field_digits (f @ r) = field_digits f @ r"
    and "field_neg (f @ r) = field_neg f"
proof -
  have t: "dropWhile isspace f \<noteq> []"
  proof
    assume "dropWhile isspace f = []"
    then have "field_digits f = []"
      by (simp add: field_digits_def)
    then show False
      using assms by simp
  qed
  then have "\<not> isspace (hd (dropWhile isspace f))"
    by (rule hd_dropWhile)
  moreover have "hd (dropWhile isspace f) \<in> set f"
    using t by (meson hd_in_set set_dropWhileD)
  ultimately have d: "dropWhile isspace (f @ r) = dropWhile isspace f @ r"
    by (rule_tac dropWhile_append1)
  show "field_digits (f @ r) = field_digits f @ r"
    using t by (simp add: field_digits_def Let_def d)
  show "field_neg (f @ r) = field_neg f"
    using t by (simp add: field_neg_def d)
qed

lemma digits_prefix:
  assumes "list_all isdigit ds"
    and "r = [] \<or> \<not> isdigit (hd r)"
  shows "takeWhile isdigit (ds @ r) = ds"
    and "dropWhile isdigit (ds @ r) = r"
proof -
  have r: "takeWhile isdigit r = []" "dropWhile isdigit r = r"
    using assms(2) by (cases r; simp)+
  have a: "\<And>x. x \<in> set ds \<Longrightarrow> isdigit x"
    using assms(1) by (simp add: list_all_iff)
  show "takeWhile isdigit (ds @ r) = ds"
    using a r by (simp add: takeWhile_append2)
  show "dropWhile isdigit (ds @ r) = r"
    using a r by (simp add: dropWhile_append2)
qed

lemma long_bounds: "LONG_MIN < 0" "255 < LONG_MAX"
  by (simp_all add: LONG_MIN_def LONG_MAX_def)

lemma strtol_field:
  assumes f: "octet_field f"
    and r: "r = [] \<or> \<not> isdigit (hd r)"
  shows "strtol (f @ r) = (int (digits_val (field_digits f)), r)"
proof -
  have ne: "field_digits f \<noteq> []" and dg: "list_all isdigit (field_digits f)"
    and le: "digits_val (field_digits f) \<le> 255"
    and ng: "field_neg f \<longrightarrow> digits_val (field_digits f) = 0"
    using f by (simp_all add: octet_field_def)
  have v: "(if field_neg f then - int (digits_val (field_digits f))
            else int (digits_val (field_digits f))) = int (digits_val (field_digits f))"
    using ng by simp
  have c: "max LONG_MIN (min LONG_MAX (int (digits_val (field_digits f)))) =
      int (digits_val (field_digits f))"
    using le long_bounds by simp
  show ?thesis
    using ne ng le long_bounds
    by (auto simp add: strtol_unfold field_append [OF ne] digits_prefix [OF dg r])
qed

lemma octet_field_not_Nil: "octet_field f \<Longrightarrow> f \<noteq> []"
  by (auto simp add: octet_field_def field_digits_def)

lemma octet_field_no_dot:
  assumes "octet_field f"
  shows "CHR ''.'' \<notin> set f"
proof
  assume dot: "CHR ''.'' \<in> set f"
  have ne: "field_digits f \<noteq> []" and dg: "list_all isdigit (field_digits f)"
    using assms by (simp_all add: octet_field_def)
  have "f = takeWhile isspace f @ dropWhile isspace f"
    by simp
  then have "CHR ''.'' \<in> set (takeWhile isspace f) \<or> CHR ''.'' \<in> set (dropWhile isspace f)"
    using dot by (metis Un_iff set_append)
  then show False
  proof
    assume "CHR ''.'' \<in> set (takeWhile isspace f)"
    then have "isspace CHR ''.''"
      by (rule set_takeWhileD [THEN conjunct2])
    then show False
      by (simp add: char_classes)
  next
    assume d: "CHR ''.'' \<in> set (dropWhile isspace f)"
    then obtain c t where t: "dropWhile isspace f = c # t"
      by (cases "dropWhile isspace f") auto
    show False
    proof (cases "c = CHR ''-'' \<or> c = CHR ''+''")
      case True
      then have "field_digits f = t"
        by (simp add: field_digits_def t)
      moreover have "CHR ''.'' \<in> set t"
        using d t True by auto
      ultimately show False
        using dg by (auto simp add: list_all_iff char_classes)
    next
      case False
      then have "field_digits f = c # t"
        by (simp add: field_digits_def t)
      then show False
        using dg d t by (auto simp add: list_all_iff char_classes)
    qed
  qed
qed

lemma strtol_accept:
  assumes st: "strtol s = (v, ep)"
    and ne: "ep \<noteq> s"
    and lo: "0 \<le> v"
    and hi: "v \<le> 255"
  shows "\<exists>f. s = f @ ep \<and> octet_field f \<and> (ep = [] \<or> \<not> isdigit (hd ep)) \<and>
             v = int (digits_val (field_digits f))"
proof -
  define D where "D = field_digits s"
  define ds where "ds = takeWhile isdigit D"
  have dsne: "ds \<noteq> []"
    using st ne by (auto simp add: strtol_unfold ds_def D_def split: if_splits)
  have ep: "ep = dropWhile isdigit D"
    using st dsne by (simp add: strtol_unfold ds_def D_def)
  have v: "v = max LONG_MIN (min LONG_MAX
              (if field_neg s then - int (digits_val ds) else int (digits_val ds)))"
    using st dsne by (auto simp add: strtol_unfold ds_def D_def)
  have Dsplit: "D = ds @ ep"
    by (simp add: ds_def ep)
  have dsdig: "list_all isdigit ds"
    by (auto simp add: ds_def list_all_iff dest: set_takeWhileD)
  have epnd: "ep = [] \<or> \<not> isdigit (hd ep)"
    unfolding ep by (cases "dropWhile isdigit D = []") (simp_all add: hd_dropWhile)
  define t where "t = dropWhile isspace s"
  have tne: "t \<noteq> []"
  proof
    assume "t = []"
    then have "D = []"
      by (simp add: D_def field_digits_def t_def)
    then show False
      using dsne by (simp add: ds_def)
  qed
  then obtain c t' where tc: "t = c # t'"
    by (cases t) auto
  have cns: "\<not> isspace c"
    using hd_dropWhile [of isspace s] tne tc by (simp add: t_def)
  have ssplit: "s = takeWhile isspace s @ t"
    by (simp add: t_def)
  have ws: "\<And>x. x \<in> set (takeWhile isspace s) \<Longrightarrow> isspace x"
    by (rule set_takeWhileD [THEN conjunct2])
  have negs: "field_neg s = (c = CHR ''-'')"
    using tc by (simp add: field_neg_def t_def [symmetric])
  show ?thesis
  proof (cases "c = CHR ''-'' \<or> c = CHR ''+''")
    case True
    have D: "D = t'"
      using True tc by (simp add: D_def field_digits_def t_def [symmetric])
    define f where "f = takeWhile isspace s @ c # ds"
    have sf: "s = f @ ep"
      using ssplit tc D Dsplit by (simp add: f_def)
    have dw: "dropWhile isspace f = c # ds"
      using ws cns by (simp add: f_def dropWhile_append2)
    have fd: "field_digits f = ds" and fn: "field_neg f = (c = CHR ''-'')"
      using True by (simp_all add: field_digits_def field_neg_def dw)
    have val: "v = int (digits_val ds)" and le: "digits_val ds \<le> 255"
      and z: "c = CHR ''-'' \<longrightarrow> digits_val ds = 0"
      using v lo hi negs long_bounds by (auto simp add: max_def min_def split: if_splits)
    have "octet_field f"
      using dsne dsdig le z by (simp add: octet_field_def fd fn)
    then show ?thesis
      using sf epnd val fd by auto
  next
    case False
    have D: "D = c # t'"
      using False tc by (simp add: D_def field_digits_def t_def [symmetric])
    define f where "f = takeWhile isspace s @ ds"
    have sf: "s = f @ ep"
      using ssplit tc D Dsplit by (simp add: f_def)
    have hdds: "hd ds = c"
      using dsne D by (auto simp add: ds_def split: if_splits)
    have dw: "dropWhile isspace f = ds"
    proof -
      obtain ds' where "ds = c # ds'"
        using dsne hdds by (cases ds) auto
      then show ?thesis
        using ws cns by (simp add: f_def dropWhile_append2)
    qed
    have fd: "field_digits f = ds" and fn: "field_neg f = (c = CHR ''-'')"
      using False dsne hdds by (auto simp add: field_digits_def field_neg_def dw)
    have val: "v = int (digits_val ds)" and le: "digits_val ds \<le> 255"
      using v lo hi negs False long_bounds by (auto simp add: max_def min_def split: if_splits)
    have "octet_field f"
      using dsne dsdig le False by (simp add: octet_field_def fd fn)
    then show ?thesis
      using sf epnd val fd by auto
  qed
qed


subsection \<open>The loop of \<open>ip_addr_pton\<close>\<close>

lemma split_dots_Cons_Cons:
  assumes "split_dots s = f # g # fs"
  shows "\<exists>r. s = f @ CHR ''.'' # r \<and> split_dots r = g # fs"
  using split_dots_decompose [of s] assms by simp

lemma split_dots_singleton:
  assumes "split_dots s = [f]"
  shows "s = f"
  using split_dots_decompose [of s] assms by simp

lemma pton_from_done: "pton_from bo 4 sp n = (0, n)"
  by (simp add: pton_from.simps)

lemma pton_fst_cases:
  "fst (pton_from bo idx sp n) = 0 \<or> fst (pton_from bo idx sp n) = - 1"
proof (induction bo idx sp n rule: pton_from.induct)
  case (1 bo idx sp n)
  show ?case
  proof (cases "strtol sp")
    case (Pair ret ep)
    then show ?thesis
      using 1 [OF _ Pair [symmetric] refl]
      by (auto simp add: pton_from.simps [of bo idx sp n])
  qed
qed

lemma pton_step_ok:
  assumes idx: "idx < 3"
    and f: "octet_field f"
  shows "pton_from bo idx (f @ CHR ''.'' # r) n =
     pton_from bo (Suc idx) r (set_u8 bo n idx (word_of_nat (digits_val (field_digits f))))"
proof -
  have st: "strtol (f @ CHR ''.'' # r) = (int (digits_val (field_digits f)), CHR ''.'' # r)"
    using f by (rule strtol_field) (simp add: char_classes)
  have ne: "CHR ''.'' # r \<noteq> f @ CHR ''.'' # r"
    using octet_field_not_Nil [OF f] by (metis append_self_conv2)
  have le: "digits_val (field_digits f) \<le> 255"
    using f by (simp add: octet_field_def)
  show ?thesis
    using idx ne le by (simp add: pton_from.simps [of bo idx "f @ CHR ''.'' # r" n] st)
qed

lemma pton_last_ok:
  assumes f: "octet_field f"
  shows "pton_from bo 3 f n =
     (0, set_u8 bo n 3 (word_of_nat (digits_val (field_digits f))))"
proof -
  have st: "strtol f = (int (digits_val (field_digits f)), [])"
    using strtol_field [OF f, of "[]"] by simp
  have ne: "f \<noteq> []"
    using f by (rule octet_field_not_Nil)
  have le: "digits_val (field_digits f) \<le> 255"
    using f by (simp add: octet_field_def)
  show ?thesis
    using ne le by (simp add: pton_from.simps [of bo 3 f n] st pton_from_done)
qed

lemma pton_last_iff:
  "fst (pton_from bo 3 sp n) = 0 \<longleftrightarrow> octet_field sp"
proof
  assume "octet_field sp"
  then show "fst (pton_from bo 3 sp n) = 0"
    by (simp add: pton_last_ok)
next
  assume ok: "fst (pton_from bo 3 sp n) = 0"
  obtain ret ep where st: "strtol sp = (ret, ep)"
    by (cases "strtol sp") auto
  have c: "0 \<le> ret" "ret \<le> 255" "ep \<noteq> sp" "ep = []"
    using ok by (auto simp add: pton_from.simps [of bo 3 sp n] st split: if_splits)
  obtain f where "sp = f @ ep" "octet_field f"
    using strtol_accept [OF st c(3) c(1) c(2)] by auto
  then show "octet_field sp"
    using c(4) by simp
qed

lemma pton_step_iff:
  assumes idx: "idx < 3"
  shows "fst (pton_from bo idx sp n) = 0 \<longleftrightarrow>
     (\<exists>f r. sp = f @ CHR ''.'' # r \<and> octet_field f \<and>
        fst (pton_from bo (Suc idx) r
               (set_u8 bo n idx (word_of_nat (digits_val (field_digits f))))) = 0)"
proof
  assume "\<exists>f r. sp = f @ CHR ''.'' # r \<and> octet_field f \<and>
        fst (pton_from bo (Suc idx) r
               (set_u8 bo n idx (word_of_nat (digits_val (field_digits f))))) = 0"
  then show "fst (pton_from bo idx sp n) = 0"
    using idx by (auto simp add: pton_step_ok)
next
  assume ok: "fst (pton_from bo idx sp n) = 0"
  obtain ret ep where st: "strtol sp = (ret, ep)"
    by (cases "strtol sp") auto
  have c: "0 \<le> ret" "ret \<le> 255" "ep \<noteq> sp" "ep \<noteq> []" "hd ep = CHR ''.''"
    and rec: "fst (pton_from bo (Suc idx) (tl ep) (set_u8 bo n idx (word_of_int ret))) = 0"
    using ok idx by (auto simp add: pton_from.simps [of bo idx sp n] st split: if_splits)
  obtain f where f: "sp = f @ ep" "octet_field f" "ret = int (digits_val (field_digits f))"
    using strtol_accept [OF st c(3) c(1) c(2)] by auto
  have ep: "ep = CHR ''.'' # tl ep"
    using c(4) c(5) by (cases ep) auto
  have "sp = f @ CHR ''.'' # tl ep"
    using f(1) ep by simp
  moreover have "fst (pton_from bo (Suc idx) (tl ep)
      (set_u8 bo n idx (word_of_nat (digits_val (field_digits f))))) = 0"
    using rec f(3) by simp
  ultimately show "\<exists>f r. sp = f @ CHR ''.'' # r \<and> octet_field f \<and>
        fst (pton_from bo (Suc idx) r
               (set_u8 bo n idx (word_of_nat (digits_val (field_digits f))))) = 0"
    using f(2) by blast
qed

lemma pton_from_fields_iff:
  "idx < 4 \<Longrightarrow>
   fst (pton_from bo idx sp n) = 0 \<longleftrightarrow>
     length (split_dots sp) = 4 - idx \<and> list_all octet_field (split_dots sp)"
proof (induction "3 - idx" arbitrary: idx sp n)
  case 0
  then have idx: "idx = 3"
    by simp
  show ?case
  proof
    assume "fst (pton_from bo idx sp n) = 0"
    then have f: "octet_field sp"
      by (simp add: idx pton_last_iff)
    then have "split_dots sp = [sp]"
      by (simp add: octet_field_no_dot split_dots_single)
    then show "length (split_dots sp) = 4 - idx \<and> list_all octet_field (split_dots sp)"
      using f idx by simp
  next
    assume a: "length (split_dots sp) = 4 - idx \<and> list_all octet_field (split_dots sp)"
    then obtain f where sd: "split_dots sp = [f]"
      using idx by (cases "split_dots sp") auto
    then have "sp = f"
      by (rule split_dots_singleton)
    then have "octet_field sp"
      using a sd by simp
    then show "fst (pton_from bo idx sp n) = 0"
      by (simp add: idx pton_last_iff)
  qed
next
  case (Suc k)
  then have idx: "idx < 3" and k: "k = 3 - Suc idx" and nx: "Suc idx < 4"
    by simp_all
  note IH = Suc.hyps(1) [OF k nx]
  show ?case
  proof
    assume "fst (pton_from bo idx sp n) = 0"
    then obtain f r where sp: "sp = f @ CHR ''.'' # r" and f: "octet_field f"
      and rec: "fst (pton_from bo (Suc idx) r
               (set_u8 bo n idx (word_of_nat (digits_val (field_digits f))))) = 0"
      using pton_step_iff [OF idx] by blast
    have r: "length (split_dots r) = 4 - Suc idx \<and> list_all octet_field (split_dots r)"
      using rec IH by simp
    have "split_dots sp = f # split_dots r"
      using f by (simp add: sp octet_field_no_dot split_dots_field)
    then show "length (split_dots sp) = 4 - idx \<and> list_all octet_field (split_dots sp)"
      using r f idx by simp
  next
    assume a: "length (split_dots sp) = 4 - idx \<and> list_all octet_field (split_dots sp)"
    then obtain f g fs where sd: "split_dots sp = f # g # fs"
      using idx by (cases "split_dots sp"; cases "tl (split_dots sp)") auto
    then obtain r where sp: "sp = f @ CHR ''.'' # r" and r: "split_dots r = g # fs"
      using split_dots_Cons_Cons by blast
    have f: "octet_field f"
      using a sd by simp
    have "length (split_dots r) = 4 - Suc idx \<and> list_all octet_field (split_dots r)"
      using a sd r idx by auto
    then have "fst (pton_from bo (Suc idx) r
               (set_u8 bo n idx (word_of_nat (digits_val (field_digits f))))) = 0"
      using IH by simp
    then show "fst (pton_from bo idx sp n) = 0"
      using pton_step_iff [OF idx, of bo sp n] sp f by blast
  qed
qed

lemma pton_accepts_iff:
  "fst (ip_addr_pton bo s n) = 0 \<longleftrightarrow> pton_accepts s"
  using pton_from_fields_iff [of 0 bo s n]
  by (simp add: ip_addr_pton_def pton_accepts_def)


subsection \<open>Canonical octets\<close>

lemma digit_char_digit_val: "isdigit c \<Longrightarrow> digit_char (digit_val c) = c"
  by (simp add: isdigit_def digit_char_def digit_val_def)

lemma digit_val_less: "isdigit c \<Longrightarrow> digit_val c < 10"
  by (auto simp add: isdigit_def digit_val_def)

lemma digit_val_pos: "isdigit c \<Longrightarrow> c \<noteq> CHR ''0'' \<Longrightarrow> 0 < digit_val c"
proof -
  assume d: "isdigit c" and z: "c \<noteq> CHR ''0''"
  have "(of_char c :: nat) \<noteq> 48"
  proof
    assume "(of_char c :: nat) = 48"
    then have "(of_char c :: nat) = of_char CHR ''0''"
      by simp
    then have "c = CHR ''0''"
      by (simp only: of_char_eq_iff)
    then show False
      using z by simp
  qed
  then show ?thesis
    using d by (simp add: isdigit_def digit_val_def)
qed

lemma digits_val_snoc: "digits_val (ds @ [c]) = 10 * digits_val ds + digit_val c"
  by (simp add: digits_val_def)

lemma digits_val_pos:
  "ds \<noteq> [] \<Longrightarrow> list_all isdigit ds \<Longrightarrow> hd ds \<noteq> CHR ''0'' \<Longrightarrow> 0 < digits_val ds"
proof (induction ds rule: rev_induct)
  case Nil
  then show ?case by simp
next
  case (snoc c ds)
  show ?case
  proof (cases "ds = []")
    case True
    then show ?thesis
      using snoc.prems by (simp add: digits_val_snoc digits_val_def digit_val_pos)
  next
    case False
    then have "0 < digits_val ds"
      using snoc by simp
    then show ?thesis
      by (simp add: digits_val_snoc)
  qed
qed

lemma dec_digits_val:
  "ds \<noteq> [] \<Longrightarrow> list_all isdigit ds \<Longrightarrow> length ds = 1 \<or> hd ds \<noteq> CHR ''0'' \<Longrightarrow>
   dec (digits_val ds) = ds"
proof (induction ds rule: rev_induct)
  case Nil
  then show ?case by simp
next
  case (snoc c ds)
  have c: "isdigit c"
    using snoc.prems by simp
  show ?case
  proof (cases "ds = []")
    case True
    then show ?thesis
      using c digit_val_less [OF c]
      by (simp add: digits_val_snoc digits_val_def dec.simps [of "digit_val c"]
          digit_char_digit_val)
  next
    case False
    then have hd: "hd ds \<noteq> CHR ''0''"
      using snoc.prems by simp
    have ih: "dec (digits_val ds) = ds"
      using snoc False hd by simp
    have pos: "0 < digits_val ds"
      using False snoc.prems hd by (simp add: digits_val_pos)
    have dv: "digit_val c < 10"
      using c by (rule digit_val_less)
    have "dec (10 * digits_val ds + digit_val c) =
        dec (digits_val ds) @ [digit_char (digit_val c)]"
      using pos dv by (simp add: dec.simps [of "10 * digits_val ds + digit_val c"])
    then show ?thesis
      using ih c by (simp add: digits_val_snoc digit_char_digit_val)
  qed
qed

lemma dec_length:
  assumes "n < 1000"
  shows "length (dec n) \<le> 3"
proof -
  have one: "length (dec m) = 1" if "m < 10" for m
    using that by (simp add: dec.simps [of m])
  have two: "length (dec m) \<le> 2" if "m < 100" for m
  proof (cases "m < 10")
    case True
    then show ?thesis by (simp add: one)
  next
    case False
    have "m div 10 < 10"
      using that by simp
    then show ?thesis
      using False by (simp add: dec.simps [of m] one)
  qed
  show ?thesis
  proof (cases "n < 10")
    case True
    then show ?thesis by (simp add: one)
  next
    case False
    have "n div 10 < 100"
      using assms by simp
    then have "length (dec (n div 10)) \<le> 2"
      by (rule two)
    then show ?thesis
      using False by (simp add: dec.simps [of n])
  qed
qed

lemma canonical_octet_field:
  assumes "canonical_octet ds"
  shows "octet_field ds" and "field_digits ds = ds"
proof -
  have ne: "ds \<noteq> []" and dg: "list_all isdigit ds" and le: "digits_val ds \<le> 255"
    using assms by (simp_all add: canonical_octet_def)
  obtain c cs where ds: "ds = c # cs"
    using ne by (cases ds) auto
  have c: "isdigit c"
    using dg ds by simp
  then have "\<not> isspace c" "c \<noteq> CHR ''-''" "c \<noteq> CHR ''+''"
    using char_classes by (auto simp add: isdigit_not_isspace)
  then have fd: "field_digits ds = ds" and fn: "\<not> field_neg ds"
    by (simp_all add: field_digits_def field_neg_def ds)
  show "field_digits ds = ds"
    by (rule fd)
  show "octet_field ds"
    using ne dg le fn by (simp add: octet_field_def fd)
qed

lemma canonical_octet_print:
  assumes "canonical_octet ds"
  shows "dec (unat (word_of_nat (digits_val ds) :: u8)) = ds" and "length ds \<le> 3"
proof -
  have le: "digits_val ds \<le> 255"
    using assms by (simp add: canonical_octet_def)
  have d: "dec (digits_val ds) = ds"
    using assms by (simp add: canonical_octet_def dec_digits_val)
  have "digits_val ds < 2 ^ LENGTH(8)"
    using le by simp
  then have u: "unat (word_of_nat (digits_val ds) :: u8) = digits_val ds"
    by (rule of_nat_inverse [OF refl])
  show "dec (unat (word_of_nat (digits_val ds) :: u8)) = ds"
    by (simp add: u d)
  have "length (dec (digits_val ds)) \<le> 3"
    using le by (intro dec_length) simp
  then show "length ds \<le> 3"
    by (simp add: d)
qed

subsection \<open>The address written\<close>

lemma set_u8_quad:
  "set_u8 bo (set_u8 bo (set_u8 bo (set_u8 bo n 0 a) 1 b) 2 c) 3 d = load32 bo [a, b, c, d]"
proof -
  obtain x0 x1 x2 x3 where x: "store32 bo n = [x0, x1, x2, x3]"
    by (cases bo) (simp_all add: store32_def)
  show ?thesis
    by (simp add: set_u8_def x store32_load32_quad)
qed

lemma pton_fields_value:
  assumes "octet_field f0" "octet_field f1" "octet_field f2" "octet_field f3"
  shows "ip_addr_pton bo (f0 @ CHR ''.'' # f1 @ CHR ''.'' # f2 @ CHR ''.'' # f3) n =
     (0, load32 bo
        [word_of_nat (digits_val (field_digits f0)), word_of_nat (digits_val (field_digits f1)),
         word_of_nat (digits_val (field_digits f2)), word_of_nat (digits_val (field_digits f3))])"
proof -
  define n0 where "n0 = set_u8 bo n 0 (word_of_nat (digits_val (field_digits f0)))"
  define n1 where "n1 = set_u8 bo n0 1 (word_of_nat (digits_val (field_digits f1)))"
  define n2 where "n2 = set_u8 bo n1 2 (word_of_nat (digits_val (field_digits f2)))"
  have "pton_from bo 0 (f0 @ CHR ''.'' # f1 @ CHR ''.'' # f2 @ CHR ''.'' # f3) n =
      pton_from bo 1 (f1 @ CHR ''.'' # f2 @ CHR ''.'' # f3) n0"
    using pton_step_ok [of 0 f0 bo _ n] assms(1) by (simp add: n0_def)
  also have "\<dots> = pton_from bo 2 (f2 @ CHR ''.'' # f3) n1"
    using pton_step_ok [of 1 f1 bo _ n0] assms(2) by (simp add: n1_def numeral_2_eq_2)
  also have "\<dots> = pton_from bo 3 f3 n2"
    using pton_step_ok [of 2 f2 bo _ n1] assms(3) by (simp add: n2_def numeral_3_eq_3)
  also have "\<dots> = (0, set_u8 bo n2 3 (word_of_nat (digits_val (field_digits f3))))"
    using assms(4) by (rule pton_last_ok)
  also have "set_u8 bo n2 3 (word_of_nat (digits_val (field_digits f3))) =
      load32 bo
        [word_of_nat (digits_val (field_digits f0)), word_of_nat (digits_val (field_digits f1)),
         word_of_nat (digits_val (field_digits f2)), word_of_nat (digits_val (field_digits f3))]"
    unfolding n2_def n1_def n0_def by (rule set_u8_quad)
  finally show ?thesis
    by (simp add: ip_addr_pton_def)
qed

lemma split_dots_quad:
  assumes "split_dots s = [f0, f1, f2, f3]"
  shows "s = f0 @ CHR ''.'' # f1 @ CHR ''.'' # f2 @ CHR ''.'' # f3"
proof -
  obtain r0 where r0: "s = f0 @ CHR ''.'' # r0" "split_dots r0 = [f1, f2, f3]"
    using split_dots_Cons_Cons [OF assms] by blast
  obtain r1 where r1: "r0 = f1 @ CHR ''.'' # r1" "split_dots r1 = [f2, f3]"
    using split_dots_Cons_Cons [OF r0(2)] by blast
  obtain r2 where r2: "r1 = f2 @ CHR ''.'' # r2" "split_dots r2 = [f3]"
    using split_dots_Cons_Cons [OF r1(2)] by blast
  have "r2 = f3"
    using r2(2) by (rule split_dots_singleton)
  then show ?thesis
    using r0(1) r1(1) r2(1) by simp
qed

lemma canonical_roundtrip:
  assumes "canonical_quad s"
  shows "fst (ip_addr_pton bo s n) = 0"
    and "ip_addr_ntop bo (snd (ip_addr_pton bo s n)) p IP_ADDR_STR_LEN = s"
proof -
  obtain f0 f1 f2 f3 where sd: "split_dots s = [f0, f1, f2, f3]"
    using assms
    by (auto simp add: canonical_quad_def length_Suc_conv numeral_eq_Suc)
  have c: "canonical_octet f0" "canonical_octet f1" "canonical_octet f2" "canonical_octet f3"
    using assms sd by (simp_all add: canonical_quad_def)
  have s: "s = f0 @ CHR ''.'' # f1 @ CHR ''.'' # f2 @ CHR ''.'' # f3"
    using sd by (rule split_dots_quad)
  have r: "ip_addr_pton bo s n =
     (0, load32 bo
        [word_of_nat (digits_val f0), word_of_nat (digits_val f1),
         word_of_nat (digits_val f2), word_of_nat (digits_val f3)])"
    using pton_fields_value [of f0 f1 f2 f3 bo n] c
    by (simp add: s canonical_octet_field)
  show "fst (ip_addr_pton bo s n) = 0"
    by (simp add: r)
  have len: "length f0 + length f1 + length f2 + length f3 \<le> 12"
    using c [THEN canonical_octet_print(2)] by simp
  have nt: "ip_addr_ntop bo
      (load32 bo
        [word_of_nat (digits_val f0), word_of_nat (digits_val f1),
         word_of_nat (digits_val f2), word_of_nat (digits_val f3)]) p IP_ADDR_STR_LEN =
      f0 @ CHR ''.'' # f1 @ CHR ''.'' # f2 @ CHR ''.'' # f3"
    using c [THEN canonical_octet_print(1)] len
    by (simp add: ip_addr_ntop_def store32_load32_quad IP_ADDR_STR_LEN_def Let_def)
  show "ip_addr_ntop bo (snd (ip_addr_pton bo s n)) p IP_ADDR_STR_LEN = s"
    unfolding r snd_conv nt by (rule s [symmetric])
qed


lemmas field_eval_defs =
  canonical_quad_def canonical_octet_def pton_accepts_def octet_field_def field_digits_def
  field_neg_def isdigit_def isspace_def digits_val_def digit_val_def

text \<open>
  C9. The claim: \<open>ip_addr_ntop(ip_addr_pton(s)) = s\<close> for every canonical dotted quad
  \<open>s\<close>, and \<open>ip_addr_pton\<close> fails on every other string. The first half holds. The
  second does not: each component is read by \<open>strtol\<close>, which skips white space, takes
  a sign and takes leading zeros (the counterexample below). What holds:
  \<open>ip_addr_pton\<close> succeeds exactly on four dot-separated fields, each of them white
  space, an optional sign and then only digits, with a value from 0 to 255 that is 0
  after a minus sign; on every other string it returns -1. Strings with other leading
  or trailing characters, with a missing or an extra component, with a component
  above 255 or with a negative component are among those.
\<close>

theorem pton_ntop_roundtrip:
  "(canonical_quad s \<longrightarrow>
      fst (ip_addr_pton bo s n) = 0 \<and>
      ip_addr_ntop bo (snd (ip_addr_pton bo s n)) p IP_ADDR_STR_LEN = s) \<and>
   (fst (ip_addr_pton bo s n) = 0 \<longleftrightarrow> pton_accepts s) \<and>
   (\<not> pton_accepts s \<longrightarrow> fst (ip_addr_pton bo s n) = - 1)"
proof (intro conjI impI)
  assume "canonical_quad s"
  then show "fst (ip_addr_pton bo s n) = 0"
    and "ip_addr_ntop bo (snd (ip_addr_pton bo s n)) p IP_ADDR_STR_LEN = s"
    by (rule canonical_roundtrip)+
next
  show "fst (ip_addr_pton bo s n) = 0 \<longleftrightarrow> pton_accepts s"
    by (rule pton_accepts_iff)
next
  assume "\<not> pton_accepts s"
  then have "fst (ip_addr_pton bo s n) \<noteq> 0"
    by (simp add: pton_accepts_iff)
  then show "fst (ip_addr_pton bo s n) = - 1"
    using pton_fst_cases [of bo 0 s n] by (simp add: ip_addr_pton_def)
qed

theorem pton_ntop_roundtrip_witness:
  "fst (ip_addr_pton LITTLE_ENDIAN ''10.0.0.2'' 0) = 0 \<and>
   ip_addr_ntop LITTLE_ENDIAN (snd (ip_addr_pton LITTLE_ENDIAN ''10.0.0.2'' 0)) []
     IP_ADDR_STR_LEN = ''10.0.0.2'' \<and>
   fst (ip_addr_pton BIG_ENDIAN ''10.0.0.256'' 0) = - 1 \<and>
   fst (ip_addr_pton BIG_ENDIAN ''10.0.0.2.'' 0) = - 1 \<and>
   fst (ip_addr_pton BIG_ENDIAN ''x10.0.0.2'' 0) = - 1 \<and>
   fst (ip_addr_pton BIG_ENDIAN ''10.0.0.-2'' 0) = - 1"
proof -
  have c: "canonical_quad ''10.0.0.2''"
    by (simp add: field_eval_defs)
  have r: "\<not> pton_accepts ''10.0.0.256''" "\<not> pton_accepts ''10.0.0.2.''"
    "\<not> pton_accepts ''x10.0.0.2''" "\<not> pton_accepts ''10.0.0.-2''"
    by (simp_all add: field_eval_defs)
  show ?thesis
    using pton_ntop_roundtrip [of "''10.0.0.2''" LITTLE_ENDIAN 0 "[]"] c
      pton_ntop_roundtrip [of "''10.0.0.256''" BIG_ENDIAN 0 "[]"]
      pton_ntop_roundtrip [of "''10.0.0.2.''" BIG_ENDIAN 0 "[]"]
      pton_ntop_roundtrip [of "''x10.0.0.2''" BIG_ENDIAN 0 "[]"]
      pton_ntop_roundtrip [of "''10.0.0.-2''" BIG_ENDIAN 0 "[]"] r
    by simp
qed

theorem pton_accepts_noncanonical_counterexample:
  "\<not> canonical_quad '' 10.0.0.2'' \<and>
   ip_addr_pton LITTLE_ENDIAN '' 10.0.0.2'' 0 = (0, 0x0200000A) \<and>
   \<not> canonical_quad ''+10.0.0.2'' \<and>
   ip_addr_pton LITTLE_ENDIAN ''+10.0.0.2'' 0 = (0, 0x0200000A) \<and>
   \<not> canonical_quad ''010.0.0.2'' \<and>
   ip_addr_pton LITTLE_ENDIAN ''010.0.0.2'' 0 = (0, 0x0200000A) \<and>
   \<not> canonical_quad ''10.0.0.-0'' \<and>
   ip_addr_pton LITTLE_ENDIAN ''10.0.0.-0'' 0 = (0, 0x0000000A)"
  by (simp add: field_eval_defs ip_eval_defs)

end
